theory Spec2Isabelle
  imports Main
begin

section \<open>Data model\<close>

text \<open>
  The two structs of \<^verbatim>\<open>main.go\<close>. Go's \<^verbatim>\<open>int\<close> is a 64-bit integer on which the program
  does no arithmetic, so it is an \<open>int\<close> here; a \<^verbatim>\<open>time.Time\<close> is its number of seconds
  since the Unix epoch.
\<close>

record Review =
  ReviewID :: string
  Rating :: int
  Text :: string
  Author :: string
  Device :: string
  Date :: int
  Notified :: bool

record RatingRange =
  Start :: int
  End :: int

text \<open>
  The review objects of the \<^verbatim>\<open>androidpublisher\<close> client, with the fields the program
  reads. A Go pointer is an \<open>option\<close>: \<open>None\<close> is \<^verbatim>\<open>nil\<close>. The field \<^verbatim>\<open>Text\<close> of a user
  comment is \<open>CommentText\<close> here, the name \<open>Text\<close> being taken by \<open>Review\<close>.
\<close>

record DeviceMetadata =
  ProductName :: string

record Timestamp =
  Seconds :: int

record UserComment =
  StarRating :: int
  CommentText :: string
  DeviceMetadata :: "DeviceMetadata option"
  LastModified :: "Timestamp option"

record Comment =
  UserComment :: "UserComment option"

record ApiReview =
  ReviewId :: string
  AuthorName :: string
  Comments :: "Comment option list"

text \<open>
  The configuration variables that the modelled functions read.
\<close>

record config =
  webhookURL :: string
  testMode :: bool

text \<open>
  Functions of the Go standard library that the program calls and whose results it does
  not inspect further are parameters of the model. \<open>Atoi\<close> and \<open>ParseRFC3339\<close> give the
  value that \<^verbatim>\<open>strconv.Atoi\<close> and \<^verbatim>\<open>time.Parse\<close> return, also on an error (the program
  drops their errors). \<open>Marshal\<close> is \<^verbatim>\<open>json.Marshal\<close> on the one-field message object,
  \<open>None\<close> when it returns an error. \<open>csv_line\<close> gives the bytes that the CSV writer
  emits for one record, line end included, and \<open>csv_parse\<close> the records that the CSV
  reader finds in the bytes of a file, \<open>None\<close> when they are not CSV.
\<close>

record lib =
  Atoi :: "string \<Rightarrow> int"
  Itoa :: "int \<Rightarrow> string"
  ParseRFC3339 :: "string \<Rightarrow> int"
  FormatRFC3339 :: "int \<Rightarrow> string"
  FormatRFC1123 :: "int \<Rightarrow> string"
  TrimSpace :: "string \<Rightarrow> string"
  Marshal :: "string \<Rightarrow> string option"
  csv_line :: "string list \<Rightarrow> string"
  csv_parse :: "string \<Rightarrow> string list list option"

text \<open>
  A function of the program ends in one of three ways: it returns normally, it returns
  a non-nil \<^verbatim>\<open>error\<close>, or it panics (an index or a slice bound out of range, a nil
  dereference, a negative repeat count).
\<close>

datatype error = Panic | Error string

section \<open>State store: \<^verbatim>\<open>readExistingReviews\<close>\<close>

text \<open>
  What the program finds under the path \<^verbatim>\<open>reviewsCSV\<close>: no file, a file that cannot be
  opened, a file whose bytes are not CSV, or a file in whose bytes the CSV reader finds
  the given records.
\<close>

datatype disk = NoFile | NoAccess | BadCSV | Rows "string list list"

text \<open>
  \<^verbatim>\<open>reader.ReadAll()\<close> with the reader's default settings: every record must have as
  many fields as the first one.
\<close>

fun ReadAll :: "string list list \<Rightarrow> error + string list list" where
  "ReadAll [] = Inr []"
| "ReadAll (r # rs) =
     (if \<forall>x \<in> set rs. length x = length r then Inr (r # rs)
      else Inl (Error ''failed to read CSV''))"

text \<open>
  \<^verbatim>\<open>strconv.ParseBool\<close>, as the value it returns: \<^verbatim>\<open>false\<close> together with the error that
  the program drops.
\<close>

definition ParseBool :: "string \<Rightarrow> bool" where
  "ParseBool s = (s \<in> set [''1'', ''t'', ''T'', ''true'', ''TRUE'', ''True''])"

definition FormatBool :: "bool \<Rightarrow> string" where
  "FormatBool b = (if b then ''true'' else ''false'')"

text \<open>
  The body of the loop over \<^verbatim>\<open>records[1:]\<close>. The record is indexed at 5, 6, 1, 0, 2, 3 and
  4; the first index read is 5, and an index out of range panics.
\<close>

definition read_record :: "lib \<Rightarrow> (string \<rightharpoonup> Review) \<Rightarrow> string list \<Rightarrow> error + (string \<rightharpoonup> Review)" where
  "read_record l reviews record =
     (if length record \<le> 5 then Inl Panic
      else if length record \<le> 6 then Inl Panic
      else
        let date = ParseRFC3339 l (record ! 5);
            notified = ParseBool (record ! 6);
            rating = Atoi l (record ! 1)
        in Inr (reviews(record ! 0 \<mapsto>
             \<lparr>ReviewID = record ! 0, Rating = rating, Text = record ! 2,
              Author = record ! 3, Device = record ! 4, Date = date,
              Notified = notified\<rparr>)))"

fun read_records :: "lib \<Rightarrow> (string \<rightharpoonup> Review) \<Rightarrow> string list list \<Rightarrow> error + (string \<rightharpoonup> Review)" where
  "read_records l reviews [] = Inr reviews"
| "read_records l reviews (record # rest) =
     (case read_record l reviews record of
        Inl e \<Rightarrow> Inl e
      | Inr reviews' \<Rightarrow> read_records l reviews' rest)"

text \<open>
  \<^verbatim>\<open>records[1:]\<close> panics on an empty slice (slice bounds out of range).
\<close>

definition readExistingReviews :: "lib \<Rightarrow> disk \<Rightarrow> error + (string \<rightharpoonup> Review)" where
  "readExistingReviews l d =
     (case d of
        NoFile \<Rightarrow> Inr Map.empty
      | NoAccess \<Rightarrow> Inl (Error ''failed to open CSV file'')
      | BadCSV \<Rightarrow> Inl (Error ''failed to read CSV'')
      | Rows rows \<Rightarrow>
          (case ReadAll rows of
             Inl e \<Rightarrow> Inl e
           | Inr records \<Rightarrow>
               (case records of
                  [] \<Rightarrow> Inl Panic
                | first # data \<Rightarrow> read_records l Map.empty data)))"

section \<open>Notifier: \<^verbatim>\<open>sendToWebhook\<close>\<close>

text \<open>
  What a run does to the outside world, in order: the log lines written from the review
  loop on (one constructor for each \<^verbatim>\<open>log.Printf\<close> call, with its arguments), the calls
  of \<^verbatim>\<open>time.Sleep\<close> with their seconds, and the HTTP requests with URL and body.
\<close>

datatype event =
    LogTestMode string
  | LogSendFailed string string
  | LogNewReviews
  | LogNewReview string
  | LogNoNewReviews
  | Sleep nat
  | HttpPost string string

text \<open>
  The webhook's answer to a request: no response (\<^verbatim>\<open>http.Post\<close> returns an error with
  the given text) or a response with a status code. The answer to the \<open>n\<close>-th request
  of a run is \<open>net n\<close>; \<open>posts\<close> counts the requests made.
\<close>

datatype post_result = TransportError string | Status int

record world =
  trace :: "event list"
  posts :: nat

text \<open>
  \<^verbatim>\<open>strings.Repeat\<close> of the star glyph (three bytes in UTF-8): it panics on a negative
  count and on a result longer than the largest \<^verbatim>\<open>int\<close>.
\<close>

definition star :: string where
  "star = [CHR 0xE2, CHR 0xAD, CHR 0x90]"

definition Repeat_star :: "int \<Rightarrow> error + string" where
  "Repeat_star count =
     (if count < 0 then Inl Panic
      else if 3 * count > 2 ^ 63 - 1 then Inl Panic
      else Inr (concat (replicate (nat count) star)))"

definition message_text :: "lib \<Rightarrow> string \<Rightarrow> Review \<Rightarrow> string" where
  "message_text l stars review =
     ''*New Review*\<newline>Rating: '' @ stars @ '' ('' @ Itoa l (Rating review)
       @ '')\<newline>Review: '' @ Text review
       @ ''\<newline>Author: '' @ Author review
       @ ''\<newline>Device: '' @ Device review
       @ ''\<newline>Date: '' @ FormatRFC1123 l (Date review)"

definition sendToWebhook ::
  "lib \<Rightarrow> config \<Rightarrow> (nat \<Rightarrow> post_result) \<Rightarrow> Review \<Rightarrow> world \<Rightarrow> (error + unit) \<times> world" where
  "sendToWebhook l cfg net review w =
     (case Repeat_star (Rating review) of
        Inl e \<Rightarrow> (Inl e, w)
      | Inr stars \<Rightarrow>
          let message = message_text l stars review in
          if testMode cfg then
            (Inr (), w\<lparr>trace := trace w @ [LogTestMode message, Sleep 2]\<rparr>)
          else
            (case Marshal l message of
               None \<Rightarrow> (Inl (Error ''failed to marshal message''), w)
             | Some jsonData \<Rightarrow>
                 let w1 = w\<lparr>trace := trace w @ [HttpPost (webhookURL cfg) jsonData],
                            posts := Suc (posts w)\<rparr>
                 in (case net (posts w) of
                       TransportError msg \<Rightarrow>
                         (Inl (Error (''failed to send webhook: '' @ msg)), w1)
                     | Status StatusCode \<Rightarrow>
                         if StatusCode \<noteq> 200 then
                           (Inl (Error (''webhook returned non-200 status code: ''
                                          @ Itoa l StatusCode)), w1)
                         else (Inr (), w1\<lparr>trace := trace w1 @ [Sleep 2]\<rparr>))))"

definition cleanText :: "lib \<Rightarrow> string \<Rightarrow> string" where
  "cleanText l text = TrimSpace l text"

section \<open>Reconciler: the review loop of \<^verbatim>\<open>main\<close>\<close>

text \<open>
  The variables that the loop over \<^verbatim>\<open>reviews.Reviews\<close> reads and writes.
\<close>

record run_state =
  existingReviews :: "string \<rightharpoonup> Review"
  newReviews :: "Review list"
  env :: world

text \<open>
  \<^verbatim>\<open>review.Comments[0].UserComment\<close>, followed by a field access: the index panics on an
  empty slice, and each nil pointer on the way panics.
\<close>

definition userComment :: "ApiReview \<Rightarrow> error + UserComment" where
  "userComment review =
     (case Comments review of
        [] \<Rightarrow> Inl Panic
      | c # _ \<Rightarrow>
          (case c of
             None \<Rightarrow> Inl Panic
           | Some comment \<Rightarrow>
               (case UserComment comment of
                  None \<Rightarrow> Inl Panic
                | Some uc \<Rightarrow> Inr uc)))"

text \<open>The condition of the \<^verbatim>\<open>continue\<close> at the head of the loop body.\<close>

definition filtered_out :: "RatingRange option \<Rightarrow> int \<Rightarrow> bool" where
  "filtered_out ratingRange rating =
     (case ratingRange of
        None \<Rightarrow> False
      | Some rr \<Rightarrow> rating < Start rr \<or> rating > End rr)"

text \<open>The condition \<^verbatim>\<open>!exists || !existingReview.Notified\<close>.\<close>

definition not_yet_notified :: "(string \<rightharpoonup> Review) \<Rightarrow> string \<Rightarrow> bool" where
  "not_yet_notified reviews rid =
     (case reviews rid of
        None \<Rightarrow> True
      | Some existingReview \<Rightarrow> \<not> Notified existingReview)"

text \<open>The struct literal \<^verbatim>\<open>newReview\<close>.\<close>

definition newReview_of :: "lib \<Rightarrow> ApiReview \<Rightarrow> UserComment \<Rightarrow> Timestamp \<Rightarrow> Review" where
  "newReview_of l review uc ts =
     \<lparr>ReviewID = ReviewId review,
      Rating = StarRating uc,
      Text = cleanText l (CommentText uc),
      Author = AuthorName review,
      Device = (case DeviceMetadata uc of None \<Rightarrow> ''Unknown'' | Some dm \<Rightarrow> ProductName dm),
      Date = Seconds ts,
      Notified = False\<rparr>"

text \<open>
  One pass of the loop body. The elements of \<^verbatim>\<open>reviews.Reviews\<close> are pointers.
\<close>

definition process_review ::
  "lib \<Rightarrow> config \<Rightarrow> (nat \<Rightarrow> post_result) \<Rightarrow> RatingRange option
     \<Rightarrow> run_state \<Rightarrow> ApiReview option \<Rightarrow> error + run_state" where
  "process_review l cfg net ratingRange st r =
     (case r of
        None \<Rightarrow> Inl Panic
      | Some review \<Rightarrow>
          (case userComment review of
             Inl e \<Rightarrow> Inl e
           | Inr uc \<Rightarrow>
               if filtered_out ratingRange (StarRating uc) then Inr st
               else if not_yet_notified (existingReviews st) (ReviewId review) then
                 (case LastModified uc of
                    None \<Rightarrow> Inl Panic
                  | Some ts \<Rightarrow>
                      let newReview = newReview_of l review uc ts in
                      (case sendToWebhook l cfg net newReview (env st) of
                         (Inl Panic, w) \<Rightarrow> Inl Panic
                       | (Inl (Error err), w) \<Rightarrow>
                           Inr (st\<lparr>env := w\<lparr>trace := trace w
                                   @ [LogSendFailed (ReviewId review) err]\<rparr>\<rparr>)
                       | (Inr u, w) \<Rightarrow>
                           let newReview' = newReview\<lparr>Notified := True\<rparr> in
                           Inr (st\<lparr>newReviews := newReviews st @ [newReview'],
                                   existingReviews :=
                                     (existingReviews st)(ReviewId review \<mapsto> newReview'),
                                   env := w\<rparr>)))
               else Inr st))"

fun process_reviews ::
  "lib \<Rightarrow> config \<Rightarrow> (nat \<Rightarrow> post_result) \<Rightarrow> RatingRange option
     \<Rightarrow> run_state \<Rightarrow> ApiReview option list \<Rightarrow> error + run_state" where
  "process_reviews l cfg net ratingRange st [] = Inr st"
| "process_reviews l cfg net ratingRange st (r # rest) =
     (case process_review l cfg net ratingRange st r of
        Inl e \<Rightarrow> Inl e
      | Inr st' \<Rightarrow> process_reviews l cfg net ratingRange st' rest)"

text \<open>The ids of the reviews of a fetched list, in order.\<close>

definition fetched_ids :: "ApiReview option list \<Rightarrow> string list" where
  "fetched_ids rs = concat (map (\<lambda>r. case r of None \<Rightarrow> [] | Some review \<Rightarrow> [ReviewId review]) rs)"

section \<open>State store: \<^verbatim>\<open>saveReviews\<close>\<close>

text \<open>
  The state file is a sequence of bytes. \<^verbatim>\<open>csv.NewWriter\<close> puts a buffer of 4096 bytes
  between the program and the file: \<open>written\<close> is what the file holds, \<open>pending\<close> what
  the buffer holds. A call of \<^verbatim>\<open>writer.Write\<close> whose line fits into the free part of
  the buffer only fills the buffer. Otherwise the buffer is written out during the call,
  and what the file system does then is the environment's choice \<open>spill n\<close> at the
  \<open>n\<close>-th call: the first \<open>k\<close> bytes of buffer and line reach the file and the
  call goes on with the rest in the buffer (\<open>Written k\<close>), or the write fails after
  \<open>k\<close> bytes and \<^verbatim>\<open>Write\<close> returns the error (\<open>Failed k\<close>). The buffer is cut where it is
  full, not at the end of a record, so the file can end inside a row.
\<close>

definition buffer_size :: nat where
  "buffer_size = 4096"

datatype write_out = Written nat | Failed nat

record io =
  create_ok :: bool
  spill :: "nat \<Rightarrow> write_out"
  flush_fails :: "nat option"

record csv_writer =
  written :: string
  pending :: string

definition writer_Write :: "write_out \<Rightarrow> csv_writer \<Rightarrow> string \<Rightarrow> (error + unit) \<times> csv_writer" where
  "writer_Write out w line =
     (if length (pending w) + length line \<le> buffer_size then
        (Inr (), w\<lparr>pending := pending w @ line\<rparr>)
      else
        (case out of
           Written k \<Rightarrow>
             (Inr (), w\<lparr>written := written w @ take k (pending w @ line),
                        pending := drop k (pending w @ line)\<rparr>)
         | Failed k \<Rightarrow>
             (Inl (Error ''write failed''),
              w\<lparr>written := written w @ take k (pending w @ line),
                pending := drop k (pending w @ line)\<rparr>)))"

text \<open>
  \<^verbatim>\<open>writer.Flush()\<close> returns nothing: when writing the buffer out fails, after \<open>k\<close> of its
  bytes, the file keeps what it has got and the caller is not told.
\<close>

definition writer_Flush :: "nat option \<Rightarrow> csv_writer \<Rightarrow> string" where
  "writer_Flush fails w =
     (case fails of
        None \<Rightarrow> written w @ pending w
      | Some k \<Rightarrow> written w @ take k (pending w))"

definition header :: "string list" where
  "header = [''Review ID'', ''Rating'', ''Review Text'', ''Author'', ''Device'', ''Date'',
             ''Notified'']"

definition record_of :: "lib \<Rightarrow> Review \<Rightarrow> string list" where
  "record_of l review =
     [ReviewID review, Itoa l (Rating review), Text review, Author review, Device review,
      FormatRFC3339 l (Date review), FormatBool (Notified review)]"

text \<open>
  The loop over \<^verbatim>\<open>reviews\<close>; \<open>n\<close> numbers the calls of \<^verbatim>\<open>writer.Write\<close>. The result
  carries the writer, whose \<open>written\<close> part is the file's content when the function
  returns early.
\<close>

fun write_records ::
  "lib \<Rightarrow> (nat \<Rightarrow> write_out) \<Rightarrow> nat \<Rightarrow> csv_writer \<Rightarrow> Review list
     \<Rightarrow> (error + unit) \<times> csv_writer" where
  "write_records l sp n w [] = (Inr (), w)"
| "write_records l sp n w (review # rest) =
     (case writer_Write (sp n) w (csv_line l (record_of l review)) of
        (Inl e, w') \<Rightarrow> (Inl (Error ''failed to write record''), w')
      | (Inr u, w') \<Rightarrow> write_records l sp (Suc n) w' rest)"

text \<open>
  The body of \<^verbatim>\<open>saveReviews\<close> after \<^verbatim>\<open>os.Create\<close>: what it returns and the bytes that
  the file holds then. The deferred \<^verbatim>\<open>writer.Flush()\<close> runs on every return; after a
  failed write the buffered writer keeps its error and the flush writes nothing.
\<close>

definition write_file :: "lib \<Rightarrow> io \<Rightarrow> Review list \<Rightarrow> (error + unit) \<times> string" where
  "write_file l env_io reviews =
     (let w0 = \<lparr>written = [], pending = []\<rparr> in
      (case writer_Write (spill env_io 0) w0 (csv_line l header) of
         (Inl e, w1) \<Rightarrow> (Inl (Error ''failed to write header''), written w1)
       | (Inr u, w1) \<Rightarrow>
           (case write_records l (spill env_io) 1 w1 reviews of
              (Inl e, w2) \<Rightarrow> (Inl e, written w2)
            | (Inr u, w2) \<Rightarrow> (Inr (), writer_Flush (flush_fails env_io) w2))))"

text \<open>What the next load finds in a file of the given bytes.\<close>

definition disk_of :: "lib \<Rightarrow> string \<Rightarrow> disk" where
  "disk_of l bytes = (case csv_parse l bytes of None \<Rightarrow> BadCSV | Some rows \<Rightarrow> Rows rows)"

text \<open>
  \<^verbatim>\<open>os.Create\<close> truncates an existing file; when it fails, the file is as it was.
\<close>

definition saveReviews :: "lib \<Rightarrow> io \<Rightarrow> Review list \<Rightarrow> disk \<Rightarrow> (error + unit) \<times> disk" where
  "saveReviews l env_io reviews d =
     (if \<not> create_ok env_io then (Inl (Error ''failed to create CSV file''), d)
      else
        (case write_file l env_io reviews of
           (res, bytes) \<Rightarrow> (res, disk_of l bytes)))"

text \<open>
  The bytes of a complete state file for the given records, and an environment in which
  no operation on the file fails.
\<close>

fun rows_bytes :: "lib \<Rightarrow> Review list \<Rightarrow> string" where
  "rows_bytes l [] = []"
| "rows_bytes l (review # rest) = csv_line l (record_of l review) @ rows_bytes l rest"

definition encoding :: "lib \<Rightarrow> Review list \<Rightarrow> string" where
  "encoding l reviews = csv_line l header @ rows_bytes l reviews"

definition undisturbed :: "io \<Rightarrow> bool" where
  "undisturbed env_io =
     (create_ok env_io \<and> (\<forall>n k. spill env_io n \<noteq> Failed k) \<and> flush_fails env_io = None)"

section \<open>Pipeline driver: \<^verbatim>\<open>main\<close> from the load of the state on\<close>

text \<open>
  How a run ends: a panic, \<^verbatim>\<open>log.Fatalf\<close>, or the end of \<^verbatim>\<open>main\<close> with the final
  variables.
\<close>

datatype run_outcome = Crashed | Fatal string | Completed run_state

text \<open>The report of the new reviews at the end of \<^verbatim>\<open>main\<close>.\<close>

definition log_line :: "lib \<Rightarrow> nat \<Rightarrow> string \<Rightarrow> Review \<Rightarrow> string" where
  "log_line l i stars review =
     ''['' @ Itoa l (int i + 1) @ ''] '' @ stars @ '' | '' @ Text review @ '' | ''
       @ Author review @ '' | '' @ Device review @ '' | '' @ FormatRFC1123 l (Date review)"

fun log_new_reviews :: "lib \<Rightarrow> nat \<Rightarrow> Review list \<Rightarrow> world \<Rightarrow> error + world" where
  "log_new_reviews l i [] w = Inr w"
| "log_new_reviews l i (review # rest) w =
     (case Repeat_star (Rating review) of
        Inl e \<Rightarrow> Inl e
      | Inr stars \<Rightarrow>
          log_new_reviews l (Suc i) rest
            (w\<lparr>trace := trace w @ [LogNewReview (log_line l i stars review)]\<rparr>))"

definition log_results :: "lib \<Rightarrow> Review list \<Rightarrow> world \<Rightarrow> error + world" where
  "log_results l new w =
     (if length new > 0 then
        log_new_reviews l 0 new (w\<lparr>trace := trace w @ [LogNewReviews]\<rparr>)
      else Inr (w\<lparr>trace := trace w @ [LogNoNewReviews]\<rparr>))"

text \<open>
  The range over the map \<^verbatim>\<open>existingReviews\<close> that builds \<^verbatim>\<open>allReviews\<close>. Go leaves the
  order of a map's keys open: \<open>ks\<close> is the order in which this run meets them.
\<close>

definition allReviews_of :: "string list \<Rightarrow> (string \<rightharpoonup> Review) \<Rightarrow> Review list" where
  "allReviews_of ks reviews = List.map_filter reviews ks"

text \<open>
  The variables at the head of the review loop: the loaded state set, no new review, and
  nothing done yet.
\<close>

definition start_state :: "(string \<rightharpoonup> Review) \<Rightarrow> run_state" where
  "start_state reviews =
     \<lparr>existingReviews = reviews, newReviews = [], env = \<lparr>trace = [], posts = 0\<rparr>\<rparr>"

text \<open>
  Every record of a state set is stored under its own id: both places that write the map
  use the record's \<^verbatim>\<open>ReviewID\<close> as the key.
\<close>

definition keyed :: "(string \<rightharpoonup> Review) \<Rightarrow> bool" where
  "keyed reviews = (\<forall>k e. reviews k = Some e \<longrightarrow> ReviewID e = k)"

text \<open>
  \<^verbatim>\<open>main\<close> from \<^verbatim>\<open>readExistingReviews()\<close> to its end. \<open>fetched\<close> is what the call of the
  review API gave: an error text or the reviews. The result is the way the run ended
  and the state file it leaves.
\<close>

definition main_run ::
  "lib \<Rightarrow> config \<Rightarrow> (nat \<Rightarrow> post_result) \<Rightarrow> io \<Rightarrow> string list \<Rightarrow> RatingRange option
     \<Rightarrow> disk \<Rightarrow> string + ApiReview option list \<Rightarrow> run_outcome \<times> disk" where
  "main_run l cfg net env_io ks ratingRange d fetched =
     (case readExistingReviews l d of
        Inl Panic \<Rightarrow> (Crashed, d)
      | Inl (Error err) \<Rightarrow> (Fatal (''Failed to read existing reviews: '' @ err), d)
      | Inr existing \<Rightarrow>
          (case fetched of
             Inl err \<Rightarrow> (Fatal (''Failed to fetch reviews: '' @ err), d)
           | Inr reviews \<Rightarrow>
               (case process_reviews l cfg net ratingRange (start_state existing) reviews of
                  Inl e \<Rightarrow> (Crashed, d)
                | Inr st \<Rightarrow>
                    (case saveReviews l env_io (allReviews_of ks (existingReviews st)) d of
                       (Inl Panic, d') \<Rightarrow> (Crashed, d')
                     | (Inl (Error err), d') \<Rightarrow>
                         (Fatal (''Failed to save reviews: '' @ err), d')
                     | (Inr u, d') \<Rightarrow>
                         (case log_results l (newReviews st) (env st) of
                            Inl e \<Rightarrow> (Crashed, d')
                          | Inr w \<Rightarrow> (Completed (st\<lparr>env := w\<rparr>), d'))))))"

section \<open>Sample values\<close>

text \<open>
  Stand-ins for the library functions, a state-file row and fetched reviews, on which
  the theorems below are instantiated.
\<close>

definition is_space :: "char \<Rightarrow> bool" where
  "is_space c = (c = CHR '' '')"

text \<open>
  A CSV writer and reader for records whose fields need no quoting: fields joined by
  commas, one record a line; the reader skips empty lines, takes a last line without a
  line end as a record, and gives up on a quote or a carriage return.
\<close>

fun join_fields :: "string list \<Rightarrow> string" where
  "join_fields [] = []"
| "join_fields [f] = f"
| "join_fields (f # g # fs) = f @ '','' @ join_fields (g # fs)"

fun split_on :: "char \<Rightarrow> string \<Rightarrow> string list" where
  "split_on c [] = [[]]"
| "split_on c (x # xs) =
     (if x = c then [] # split_on c xs
      else (case split_on c xs of
              [] \<Rightarrow> [[x]]
            | f # fs \<Rightarrow> (x # f) # fs))"

definition sample_parse :: "string \<Rightarrow> string list list option" where
  "sample_parse bytes =
     (if CHR 0x22 \<in> set bytes \<or> CHR 0x0D \<in> set bytes then None
      else Some (map (split_on CHR '','')
                   (filter (\<lambda>ln. ln \<noteq> []) (split_on CHR ''\<newline>'' bytes))))"

definition sample_lib :: lib where
  "sample_lib =
     \<lparr>Atoi = (\<lambda>s. if s = ''5'' then 5 else if s = ''2'' then 2 else 0),
      Itoa = (\<lambda>n. if n = 5 then ''5'' else if n = 2 then ''2''
                   else if n = 500 then ''500'' else ''0''),
      ParseRFC3339 = (\<lambda>s. 0),
      FormatRFC3339 = (\<lambda>t. ''1970-01-01T00:00:00Z''),
      FormatRFC1123 = (\<lambda>t. ''Thu, 01 Jan 1970 00:00:00 UTC''),
      TrimSpace = (\<lambda>s. rev (dropWhile is_space (rev (dropWhile is_space s)))),
      Marshal = (\<lambda>s. Some s),
      csv_line = (\<lambda>row. join_fields row @ ''\<newline>''),
      csv_parse = sample_parse\<rparr>"

definition sample_row :: "string list" where
  "sample_row = [''r2'', ''2'', ''slow'', ''Ann'', ''Pixel'', ''1970-01-01T00:00:00Z'', ''true'']"

definition sample_stored :: Review where
  "sample_stored =
     \<lparr>ReviewID = ''r2'', Rating = 2, Text = ''slow'', Author = ''Ann'', Device = ''Pixel'',
      Date = 0, Notified = True\<rparr>"

definition sample_new :: Review where
  "sample_new =
     \<lparr>ReviewID = ''r1'', Rating = 5, Text = ''great!'', Author = ''Bob'', Device = ''Unknown'',
      Date = 0, Notified = False\<rparr>"

definition api_review :: "string \<Rightarrow> int \<Rightarrow> string \<Rightarrow> ApiReview" where
  "api_review rid stars text =
     \<lparr>ReviewId = rid, AuthorName = ''Bob'',
      Comments = [Some \<lparr>UserComment = Some
        \<lparr>StarRating = stars, CommentText = text, DeviceMetadata = None,
         LastModified = Some \<lparr>Seconds = 0\<rparr>\<rparr>\<rparr>]\<rparr>"

definition no_comments :: ApiReview where
  "no_comments = \<lparr>ReviewId = ''r9'', AuthorName = ''Eve'', Comments = []\<rparr>"

definition live :: config where
  "live = \<lparr>webhookURL = ''https://chat.example/hook'', testMode = False\<rparr>"

definition dry_run :: config where
  "dry_run = \<lparr>webhookURL = ''https://chat.example/hook'', testMode = True\<rparr>"

definition sound_io :: io where
  "sound_io = \<lparr>create_ok = True, spill = (\<lambda>n. Written buffer_size), flush_fails = None\<rparr>"

text \<open>A webhook that answers every request with status 500, and one that accepts.\<close>

definition refusing :: "nat \<Rightarrow> post_result" where
  "refusing n = Status 500"

definition accepting :: "nat \<Rightarrow> post_result" where
  "accepting n = Status 200"

text \<open>A webhook that answers the first request with status 500 and accepts the others.\<close>

definition refusing_once :: "nat \<Rightarrow> post_result" where
  "refusing_once n = (if n = 0 then Status 500 else Status 200)"

text \<open>
  A stored record with a review text of 4000 bytes, and its row. Header line and row
  are 4099 bytes, three more than the buffer holds; byte 4096 is the \<open>r\<close> of the
  row's last field \<open>true\<close>.
\<close>

definition long_text :: string where
  "long_text = replicate 4000 (CHR ''x'')"

definition long_row :: "string list" where
  "long_row = [''r2'', ''2'', long_text, ''Ann'', ''Pixel'', ''1970-01-01T00:00:00Z'', ''true'']"

definition long_stored :: Review where
  "long_stored =
     \<lparr>ReviewID = ''r2'', Rating = 2, Text = long_text, Author = ''Ann'', Device = ''Pixel'',
      Date = 0, Notified = True\<rparr>"

text \<open>
  Two disks on which the file can be created. On the first, every write of the buffer
  to the file fails at once. On the second, a full buffer is written out, and the final
  flush of what the buffer holds at the end fails at once.
\<close>

definition full_disk :: io where
  "full_disk = \<lparr>create_ok = True, spill = (\<lambda>n. Failed 0), flush_fails = None\<rparr>"

definition lost_flush :: io where
  "lost_flush =
     \<lparr>create_ok = True, spill = (\<lambda>n. Written buffer_size), flush_fails = Some 0\<rparr>"

text \<open>
  The record built from a second fetched review, and the states of a live run over two
  reviews whose first delivery is refused and whose second is accepted.
\<close>

definition sample_other :: Review where
  "sample_other =
     \<lparr>ReviewID = ''r3'', Rating = 2, Text = ''slow'', Author = ''Bob'', Device = ''Unknown'',
      Date = 0, Notified = False\<rparr>"

definition after_refusal :: run_state where
  "after_refusal =
     \<lparr>existingReviews = Map.empty, newReviews = [],
      env = \<lparr>trace = [HttpPost ''https://chat.example/hook''
                         (message_text sample_lib (concat (replicate 5 star)) sample_new),
                       LogSendFailed ''r1'' ''webhook returned non-200 status code: 500''],
             posts = 1\<rparr>\<rparr>"

definition after_delivery :: run_state where
  "after_delivery =
     \<lparr>existingReviews = [''r3'' \<mapsto> sample_other\<lparr>Notified := True\<rparr>],
      newReviews = [sample_other\<lparr>Notified := True\<rparr>],
      env = \<lparr>trace = [HttpPost ''https://chat.example/hook''
                         (message_text sample_lib (concat (replicate 5 star)) sample_new),
                       LogSendFailed ''r1'' ''webhook returned non-200 status code: 500'',
                       HttpPost ''https://chat.example/hook''
                         (message_text sample_lib (concat (replicate 2 star)) sample_other),
                       Sleep 2],
             posts = 2\<rparr>\<rparr>"

definition reported :: world where
  "reported =
     \<lparr>trace = trace (env after_delivery)
        @ [LogNewReviews,
           LogNewReview (log_line sample_lib 0 (concat (replicate 2 star))
                           (sample_other\<lparr>Notified := True\<rparr>))],
      posts = 2\<rparr>"

text \<open>
  The row that the first 4096 bytes of the long state file end in, and the state of a dry
  run that starts from one stored record and delivers one fetched review.
\<close>

definition cut_row :: "string list" where
  "cut_row = [''r2'', ''2'', long_text, ''Ann'', ''Pixel'', ''1970-01-01T00:00:00Z'', ''tr'']"

definition after_dry_run :: run_state where
  "after_dry_run =
     \<lparr>existingReviews = [''r2'' \<mapsto> sample_stored, ''r1'' \<mapsto> sample_new\<lparr>Notified := True\<rparr>],
      newReviews = [sample_new\<lparr>Notified := True\<rparr>],
      env = \<lparr>trace = [LogTestMode (message_text sample_lib (concat (replicate 5 star))
                                       sample_new), Sleep 2],
             posts = 0\<rparr>\<rparr>"

text \<open>A directory in which the state file cannot be created.\<close>

definition locked_dir :: io where
  "locked_dir = \<lparr>create_ok = False, spill = (\<lambda>n. Written buffer_size), flush_fails = None\<rparr>"

section \<open>Loading prior state\<close>

lemma ReadAll_Inr: "ReadAll rows = Inr records \<Longrightarrow> records = rows"
  by (cases rows) (auto split: if_splits)

text \<open>
  C10. Without a state file the load returns the empty mapping. For a state file that
  exists, the load returns normally only if the file has at least one row; the first row
  is dropped as the header whatever it holds, so a header-only file gives the empty
  mapping and the rows after the header alone decide the result; a file with no row at
  all ends in a panic at the slice \<^verbatim>\<open>records[1:]\<close>.
\<close>

theorem readExistingReviews_skips_header:
  "readExistingReviews l NoFile = Inr Map.empty
   \<and> (\<forall>d m. d \<noteq> NoFile \<and> readExistingReviews l d = Inr m
        \<longrightarrow> (\<exists>h data. d = Rows (h # data) \<and> read_records l Map.empty data = Inr m))
   \<and> readExistingReviews l (Rows [h0]) = Inr Map.empty
   \<and> readExistingReviews l (Rows []) = Inl Panic"
proof -
  have a: "readExistingReviews l NoFile = Inr Map.empty"
    by (simp add: readExistingReviews_def)
  have b: "\<exists>h data. d = Rows (h # data) \<and> read_records l Map.empty data = Inr m"
    if "d \<noteq> NoFile" and "readExistingReviews l d = Inr m" for d m
  proof (cases d)
    case (Rows rows)
    with that(2) obtain records where r: "ReadAll rows = Inr records"
      by (auto simp: readExistingReviews_def split: sum.splits)
    then have "records = rows" by (rule ReadAll_Inr)
    with that(2) Rows r show ?thesis
      by (cases rows) (auto simp: readExistingReviews_def split: if_splits)
  qed (use that in \<open>auto simp: readExistingReviews_def\<close>)
  have c: "readExistingReviews l (Rows [h0]) = Inr Map.empty"
    by (simp add: readExistingReviews_def)
  have d: "readExistingReviews l (Rows []) = Inl Panic"
    by (simp add: readExistingReviews_def)
  from a b c d show ?thesis by blast
qed

theorem readExistingReviews_skips_header_witness:
  "Rows [header, sample_row] \<noteq> NoFile
   \<and> readExistingReviews sample_lib (Rows [header, sample_row]) = Inr [''r2'' \<mapsto> sample_stored]
   \<and> (\<exists>h data. Rows [header, sample_row] = Rows (h # data)
         \<and> read_records sample_lib Map.empty data = Inr [''r2'' \<mapsto> sample_stored])"
proof -
  have "readExistingReviews sample_lib (Rows [header, sample_row]) = Inr [''r2'' \<mapsto> sample_stored]"
    by (simp add: readExistingReviews_def read_record_def header_def sample_row_def
        sample_lib_def sample_stored_def ParseBool_def)
  with readExistingReviews_skips_header [of sample_lib] show ?thesis by blast
qed

section \<open>The notifier and one pass of the review loop\<close>

text \<open>
  A call of the notifier only adds events, and a call that reports success ends with the
  two-second sleep.
\<close>

lemma sendToWebhook_trace:
  assumes "sendToWebhook l cfg net review w = (res, w')"
  shows "\<exists>evs. trace w' = trace w @ evs \<and> (res = Inr () \<longrightarrow> evs \<noteq> [] \<and> last evs = Sleep 2)"
proof (cases "Repeat_star (Rating review)")
  case (Inl e)
  with assms show ?thesis by (auto simp: sendToWebhook_def)
next
  case (Inr stars)
  show ?thesis
  proof (cases "testMode cfg")
    case True
    with Inr assms show ?thesis by (auto simp: sendToWebhook_def Let_def)
  next
    case False
    show ?thesis
    proof (cases "Marshal l (message_text l stars review)")
      case None
      with Inr False assms show ?thesis by (auto simp: sendToWebhook_def Let_def)
    next
      case (Some jsonData)
      with Inr False assms show ?thesis
        by (cases "net (posts w)") (auto simp: sendToWebhook_def Let_def split: if_splits)
    qed
  qed
qed


text \<open>
  The three ways in which a pass of the loop body ends without a panic: nothing happens,
  the delivery fails and only the log grows, or the delivery succeeds and the record is
  stored as notified.
\<close>

lemma process_review_Inr:
  assumes "process_review l cfg net ratingRange st r = Inr st'"
  obtains (skipped) review uc where
      "r = Some review" "userComment review = Inr uc"
      "filtered_out ratingRange (StarRating uc)
         \<or> \<not> not_yet_notified (existingReviews st) (ReviewId review)"
      "st' = st"
  | (failed) review uc ts err w where
      "r = Some review" "userComment review = Inr uc" "LastModified uc = Some ts"
      "\<not> filtered_out ratingRange (StarRating uc)"
      "not_yet_notified (existingReviews st) (ReviewId review)"
      "sendToWebhook l cfg net (newReview_of l review uc ts) (env st) = (Inl (Error err), w)"
      "st' = st\<lparr>env := w\<lparr>trace := trace w @ [LogSendFailed (ReviewId review) err]\<rparr>\<rparr>"
  | (delivered) review uc ts w where
      "r = Some review" "userComment review = Inr uc" "LastModified uc = Some ts"
      "\<not> filtered_out ratingRange (StarRating uc)"
      "not_yet_notified (existingReviews st) (ReviewId review)"
      "sendToWebhook l cfg net (newReview_of l review uc ts) (env st) = (Inr (), w)"
      "st' = st\<lparr>newReviews := newReviews st @ [(newReview_of l review uc ts)\<lparr>Notified := True\<rparr>],
                existingReviews := (existingReviews st)(ReviewId review \<mapsto>
                   (newReview_of l review uc ts)\<lparr>Notified := True\<rparr>),
                env := w\<rparr>"
proof (cases r)
  case None
  with assms show ?thesis by (simp add: process_review_def)
next
  case (Some review)
  note r = this
  show ?thesis
  proof (cases "userComment review")
    case (Inl e)
    with assms r show ?thesis by (simp add: process_review_def)
  next
    case (Inr uc)
    note uc = this
    show ?thesis
    proof (cases "filtered_out ratingRange (StarRating uc)
                  \<or> \<not> not_yet_notified (existingReviews st) (ReviewId review)")
      case True
      with assms r uc have "st' = st" by (auto simp: process_review_def split: if_splits)
      with r uc True show ?thesis by (intro skipped) auto
    next
      case False
      then have cand: "filtered_out ratingRange (StarRating uc) = False"
          "not_yet_notified (existingReviews st) (ReviewId review) = True"
        by auto
      have body: "process_review l cfg net ratingRange st r =
        (case LastModified uc of
                    None \<Rightarrow> Inl Panic
                  | Some ts \<Rightarrow>
                      let newReview = newReview_of l review uc ts in
                      (case sendToWebhook l cfg net newReview (env st) of
                         (Inl Panic, w) \<Rightarrow> Inl Panic
                       | (Inl (Error err), w) \<Rightarrow>
                           Inr (st\<lparr>env := w\<lparr>trace := trace w
                                   @ [LogSendFailed (ReviewId review) err]\<rparr>\<rparr>)
                       | (Inr u, w) \<Rightarrow>
                           let newReview' = newReview\<lparr>Notified := True\<rparr> in
                           Inr (st\<lparr>newReviews := newReviews st @ [newReview'],
                                   existingReviews :=
                                     (existingReviews st)(ReviewId review \<mapsto> newReview'),
                                   env := w\<rparr>)))"
        by (simp add: process_review_def r uc cand)
      show ?thesis
      proof (cases "LastModified uc")
        case None
        with assms body show ?thesis by simp
      next
        case (Some ts)
        note ts = this
        obtain res w where sw:
          "sendToWebhook l cfg net (newReview_of l review uc ts) (env st) = (res, w)"
          by (cases "sendToWebhook l cfg net (newReview_of l review uc ts) (env st)")
        show ?thesis
        proof (cases res)
          case (Inl e)
          show ?thesis
          proof (cases e)
            case Panic
            with assms body ts sw Inl show ?thesis by simp
          next
            case (Error err)
            with assms body ts sw Inl
            have "st' = st\<lparr>env := w\<lparr>trace := trace w @ [LogSendFailed (ReviewId review) err]\<rparr>\<rparr>"
              by simp
            with r uc ts cand sw Inl Error show ?thesis by (intro failed) auto
          qed
        next
          case (Inr u)
          with assms body ts sw
          have "st' = st\<lparr>newReviews := newReviews st @ [(newReview_of l review uc ts)\<lparr>Notified := True\<rparr>],
                existingReviews := (existingReviews st)(ReviewId review \<mapsto>
                   (newReview_of l review uc ts)\<lparr>Notified := True\<rparr>),
                env := w\<rparr>"
            by (simp add: Let_def)
          with r uc ts cand sw Inr show ?thesis by (intro delivered) auto
        qed
      qed
    qed
  qed
qed

section \<open>What the review loop keeps\<close>

text \<open>
  A record stored as notified is never written again, an id that does not occur in a
  pass is not touched by it, and no key is ever removed.
\<close>

lemma process_review_notified_kept:
  assumes "process_review l cfg net ratingRange st r = Inr st'"
    and "existingReviews st k = Some e" and "Notified e"
  shows "existingReviews st' k = Some e"
  using assms(1)
proof (cases rule: process_review_Inr)
  case (skipped review uc)
  with assms show ?thesis by simp
next
  case (failed review uc ts err w)
  with assms show ?thesis by simp
next
  case (delivered review uc ts w)
  from delivered(5) assms(2,3) have "ReviewId review \<noteq> k"
    by (auto simp: not_yet_notified_def)
  with delivered(7) assms(2) show ?thesis by simp
qed

lemma process_review_frame:
  assumes "process_review l cfg net ratingRange st r = Inr st'"
    and "\<And>review. r = Some review \<Longrightarrow> ReviewId review \<noteq> k"
  shows "existingReviews st' k = existingReviews st k"
  using assms(1)
proof (cases rule: process_review_Inr)
  case (delivered review uc ts w)
  with assms(2) show ?thesis by simp
qed simp_all

lemma process_reviews_append:
  "process_reviews l cfg net ratingRange st (xs @ ys) =
     (case process_reviews l cfg net ratingRange st xs of
        Inl e \<Rightarrow> Inl e
      | Inr st' \<Rightarrow> process_reviews l cfg net ratingRange st' ys)"
  by (induction xs arbitrary: st) (auto split: sum.splits)

lemma process_reviews_notified_kept:
  assumes "process_reviews l cfg net ratingRange st xs = Inr st'"
    and "existingReviews st k = Some e" and "Notified e"
  shows "existingReviews st' k = Some e"
  using assms
proof (induction xs arbitrary: st)
  case Nil
  then show ?case by simp
next
  case (Cons r xs)
  from Cons.prems(1) obtain st1 where
    s1: "process_review l cfg net ratingRange st r = Inr st1"
    and s2: "process_reviews l cfg net ratingRange st1 xs = Inr st'"
    by (auto split: sum.splits)
  show ?case
    using Cons.IH [OF s2 process_review_notified_kept [OF s1 Cons.prems(2,3)] Cons.prems(3)] .
qed

lemma process_reviews_frame:
  assumes "process_reviews l cfg net ratingRange st xs = Inr st'"
    and "k \<notin> set (fetched_ids xs)"
  shows "existingReviews st' k = existingReviews st k"
  using assms
proof (induction xs arbitrary: st)
  case Nil
  then show ?case by simp
next
  case (Cons r xs)
  from Cons.prems(1) obtain st1 where
    s1: "process_review l cfg net ratingRange st r = Inr st1"
    and s2: "process_reviews l cfg net ratingRange st1 xs = Inr st'"
    by (auto split: sum.splits)
  from Cons.prems(2) have k1: "\<And>review. r = Some review \<Longrightarrow> ReviewId review \<noteq> k"
    and k2: "k \<notin> set (fetched_ids xs)"
    by (auto simp: fetched_ids_def)
  from Cons.IH [OF s2 k2] process_review_frame [OF s1 k1] show ?case by simp
qed

text \<open>
  A review stored as notified is passed over; a review that is not leaves at least one
  event behind: the log line of the dry run, the HTTP request, or the log line of the
  failed delivery.
\<close>

lemma process_review_skip:
  assumes "userComment review = Inr uc"
    and "existingReviews st (ReviewId review) = Some e" and "Notified e"
  shows "process_review l cfg net ratingRange st (Some review) = Inr st"
  using assms by (simp add: process_review_def not_yet_notified_def)

lemma process_review_attempt:
  assumes "process_review l cfg net ratingRange st (Some review) = Inr st'"
    and "userComment review = Inr uc"
    and "\<not> filtered_out ratingRange (StarRating uc)"
    and "not_yet_notified (existingReviews st) (ReviewId review)"
  shows "\<exists>evs. evs \<noteq> [] \<and> trace (env st') = trace (env st) @ evs"
  using assms(1)
proof (cases rule: process_review_Inr)
  case (skipped rv uc')
  with assms show ?thesis by simp
next
  case (failed rv uc' ts err w)
  from sendToWebhook_trace [OF failed(6)] failed(7) show ?thesis by auto
next
  case (delivered rv uc' ts w)
  from sendToWebhook_trace [OF delivered(6)] delivered(7) show ?thesis by auto
qed

section \<open>Rating filter and notification candidates\<close>

text \<open>
  C2. Without a configured range no review is filtered out; with a range \<open>[s, e]\<close> a
  review of rating \<open>r\<close> passes exactly when \<open>s \<le> r \<le> e\<close>; and a pass of the loop
  over a review that the filter rejects returns the state as it was: nothing is sent,
  nothing is logged, and the state set is not changed.
\<close>

theorem rating_filter:
  "\<not> filtered_out None r
   \<and> (\<not> filtered_out (Some \<lparr>Start = s, End = e\<rparr>) r \<longleftrightarrow> s \<le> r \<and> r \<le> e)
   \<and> (userComment review = Inr uc \<and> filtered_out ratingRange (StarRating uc)
        \<longrightarrow> process_review l cfg net ratingRange st (Some review) = Inr st)"
  by (auto simp: filtered_out_def process_review_def)

theorem rating_filter_witness:
  "userComment (api_review ''r1'' 2 ''slow'')
     = Inr \<lparr>StarRating = 2, CommentText = ''slow'', DeviceMetadata = None,
            LastModified = Some \<lparr>Seconds = 0\<rparr>\<rparr>
   \<and> filtered_out (Some \<lparr>Start = 4, End = 5\<rparr>) 2
   \<and> process_review sample_lib dry_run (\<lambda>n. Status 200) (Some \<lparr>Start = 4, End = 5\<rparr>)
         (start_state Map.empty) (Some (api_review ''r1'' 2 ''slow''))
       = Inr (start_state Map.empty)"
proof -
  have a: "userComment (api_review ''r1'' 2 ''slow'')
     = Inr \<lparr>StarRating = 2, CommentText = ''slow'', DeviceMetadata = None,
            LastModified = Some \<lparr>Seconds = 0\<rparr>\<rparr>"
    by (simp add: userComment_def api_review_def)
  have b: "filtered_out (Some \<lparr>Start = 4, End = 5\<rparr>) 2"
    using rating_filter [of 2 4 5] by simp
  from a b rating_filter [of 2 4 5 "api_review ''r1'' 2 ''slow''"
      "\<lparr>StarRating = 2, CommentText = ''slow'', DeviceMetadata = None,
            LastModified = Some \<lparr>Seconds = 0\<rparr>\<rparr>" "Some \<lparr>Start = 4, End = 5\<rparr>"
      sample_lib dry_run "\<lambda>n. Status 200" "start_state Map.empty"]
  show ?thesis by simp
qed

text \<open>
  A fetch that holds the same review twice, run from an empty state set without a
  filter: the second occurrence, whose id is absent from the loaded state set, is passed
  over, because the first was delivered and stored. One delivery is made.
\<close>

theorem repeated_id_skipped:
  "process_reviews sample_lib dry_run accepting None (start_state Map.empty)
     [Some (api_review ''r1'' 5 ''great!''), Some (api_review ''r1'' 5 ''great!'')]
     = Inr \<lparr>existingReviews = [''r1'' \<mapsto> sample_new\<lparr>Notified := True\<rparr>],
            newReviews = [sample_new\<lparr>Notified := True\<rparr>],
            env = \<lparr>trace = [LogTestMode (message_text sample_lib (concat (replicate 5 star))
                                             sample_new), Sleep 2],
                   posts = 0\<rparr>\<rparr>"
  by (simp add: process_review_def userComment_def api_review_def filtered_out_def
      not_yet_notified_def start_state_def sendToWebhook_def Repeat_star_def
      newReview_of_def dry_run_def sample_new_def cleanText_def sample_lib_def
      is_space_def Let_def)

text \<open>
  C1, as the code has it. Let the loop have reached a review that passes the filter,
  \<open>loaded\<close> being the state the loop started in and \<open>st\<close> the state after the reviews
  before it. The state set that decides is the one at that moment, which is the loaded
  one as updated by the deliveries made earlier in the run. If it holds the review's id
  as notified, and in particular if the loaded state set does, the pass changes nothing.
  If the id is absent from it or stored as not notified, the pass is the call of the
  notifier on the record built from the review, and the result of that call decides:
  on success the record is stored as notified and appended to the new reviews, on a
  failure only the log line is added. For an id that has not occurred earlier in the
  fetched list, the state set at that moment and the loaded one agree.
\<close>

theorem notification_candidate:
  assumes "process_reviews l cfg net ratingRange loaded before = Inr st"
    and "userComment review = Inr uc"
    and "\<not> filtered_out ratingRange (StarRating uc)"
  shows "((\<exists>e. existingReviews loaded (ReviewId review) = Some e \<and> Notified e)
            \<longrightarrow> process_review l cfg net ratingRange st (Some review) = Inr st)
       \<and> ((\<exists>e. existingReviews st (ReviewId review) = Some e \<and> Notified e)
            \<longrightarrow> process_review l cfg net ratingRange st (Some review) = Inr st)
       \<and> ((existingReviews st (ReviewId review) = None
             \<or> (\<exists>e. existingReviews st (ReviewId review) = Some e \<and> \<not> Notified e))
            \<longrightarrow> (LastModified uc = None
                   \<longrightarrow> process_review l cfg net ratingRange st (Some review) = Inl Panic)
              \<and> (\<forall>ts res w. LastModified uc = Some ts
                     \<and> sendToWebhook l cfg net (newReview_of l review uc ts) (env st) = (res, w)
                   \<longrightarrow> process_review l cfg net ratingRange st (Some review)
                         = (case res of
                              Inl Panic \<Rightarrow> Inl Panic
                            | Inl (Error err) \<Rightarrow>
                                Inr (st\<lparr>env := w\<lparr>trace := trace w
                                        @ [LogSendFailed (ReviewId review) err]\<rparr>\<rparr>)
                            | Inr u \<Rightarrow>
                                Inr (st\<lparr>newReviews := newReviews st
                                          @ [(newReview_of l review uc ts)\<lparr>Notified := True\<rparr>],
                                        existingReviews := (existingReviews st)
                                          (ReviewId review \<mapsto>
                                             (newReview_of l review uc ts)\<lparr>Notified := True\<rparr>),
                                        env := w\<rparr>))))
       \<and> (ReviewId review \<notin> set (fetched_ids before)
            \<longrightarrow> existingReviews st (ReviewId review)
                  = existingReviews loaded (ReviewId review))"
proof (intro conjI impI allI)
  assume "\<exists>e. existingReviews loaded (ReviewId review) = Some e \<and> Notified e"
  then obtain e where e: "existingReviews loaded (ReviewId review) = Some e" "Notified e"
    by blast
  from process_reviews_notified_kept [OF assms(1) e]
  have "existingReviews st (ReviewId review) = Some e" .
  from process_review_skip [OF assms(2) this e(2)]
  show "process_review l cfg net ratingRange st (Some review) = Inr st" .
next
  assume "\<exists>e. existingReviews st (ReviewId review) = Some e \<and> Notified e"
  then obtain e where e: "existingReviews st (ReviewId review) = Some e" "Notified e"
    by blast
  from process_review_skip [OF assms(2) e]
  show "process_review l cfg net ratingRange st (Some review) = Inr st" .
next
  assume c: "existingReviews st (ReviewId review) = None
             \<or> (\<exists>e. existingReviews st (ReviewId review) = Some e \<and> \<not> Notified e)"
    and n: "LastModified uc = None"
  from c have "not_yet_notified (existingReviews st) (ReviewId review)"
    by (auto simp: not_yet_notified_def)
  with assms(2,3) n show "process_review l cfg net ratingRange st (Some review) = Inl Panic"
    by (simp add: process_review_def)
next
  fix ts res w
  assume c: "existingReviews st (ReviewId review) = None
             \<or> (\<exists>e. existingReviews st (ReviewId review) = Some e \<and> \<not> Notified e)"
    and h: "LastModified uc = Some ts
            \<and> sendToWebhook l cfg net (newReview_of l review uc ts) (env st) = (res, w)"
  from c have "not_yet_notified (existingReviews st) (ReviewId review)"
    by (auto simp: not_yet_notified_def)
  with assms(2,3) h
  show "process_review l cfg net ratingRange st (Some review)
          = (case res of
               Inl Panic \<Rightarrow> Inl Panic
             | Inl (Error err) \<Rightarrow>
                 Inr (st\<lparr>env := w\<lparr>trace := trace w
                         @ [LogSendFailed (ReviewId review) err]\<rparr>\<rparr>)
             | Inr u \<Rightarrow>
                 Inr (st\<lparr>newReviews := newReviews st
                           @ [(newReview_of l review uc ts)\<lparr>Notified := True\<rparr>],
                         existingReviews := (existingReviews st)
                           (ReviewId review \<mapsto>
                              (newReview_of l review uc ts)\<lparr>Notified := True\<rparr>),
                         env := w\<rparr>))"
    by (simp add: process_review_def Let_def split: sum.splits error.splits)
next
  assume "ReviewId review \<notin> set (fetched_ids before)"
  with assms(1)
  show "existingReviews st (ReviewId review) = existingReviews loaded (ReviewId review)"
    by (rule process_reviews_frame)
qed

theorem notification_candidate_witness:
  "process_reviews sample_lib dry_run accepting (Some \<lparr>Start = 4, End = 5\<rparr>)
      (start_state [''r2'' \<mapsto> sample_stored]) [Some (api_review ''r0'' 1 ''bad'')]
     = Inr (start_state [''r2'' \<mapsto> sample_stored])
   \<and> \<not> filtered_out (Some \<lparr>Start = 4, End = 5\<rparr>) 5
   \<and> existingReviews (start_state [''r2'' \<mapsto> sample_stored]) ''r2'' = Some sample_stored
   \<and> Notified sample_stored
   \<and> process_review sample_lib dry_run accepting (Some \<lparr>Start = 4, End = 5\<rparr>)
         (start_state [''r2'' \<mapsto> sample_stored]) (Some (api_review ''r2'' 5 ''better''))
       = Inr (start_state [''r2'' \<mapsto> sample_stored])
   \<and> existingReviews (start_state [''r2'' \<mapsto> sample_stored]) ''r1'' = None
   \<and> ''r1'' \<notin> set (fetched_ids [Some (api_review ''r0'' 1 ''bad'')])
   \<and> sendToWebhook sample_lib dry_run accepting sample_new
         (env (start_state [''r2'' \<mapsto> sample_stored]))
       = (Inr (), \<lparr>trace = [LogTestMode (message_text sample_lib (concat (replicate 5 star))
                                          sample_new), Sleep 2],
                   posts = 0\<rparr>)
   \<and> process_review sample_lib dry_run accepting (Some \<lparr>Start = 4, End = 5\<rparr>)
         (start_state [''r2'' \<mapsto> sample_stored]) (Some (api_review ''r1'' 5 ''great!''))
       = Inr \<lparr>existingReviews = [''r2'' \<mapsto> sample_stored,
                                  ''r1'' \<mapsto> sample_new\<lparr>Notified := True\<rparr>],
              newReviews = [sample_new\<lparr>Notified := True\<rparr>],
              env = \<lparr>trace = [LogTestMode (message_text sample_lib
                                   (concat (replicate 5 star)) sample_new), Sleep 2],
                     posts = 0\<rparr>\<rparr>"
proof -
  let ?rr = "Some \<lparr>Start = 4, End = 5\<rparr>"
  let ?st = "start_state [''r2'' \<mapsto> sample_stored]"
  let ?uc = "\<lambda>t. \<lparr>StarRating = 5, CommentText = t, DeviceMetadata = None,
                  LastModified = Some \<lparr>Seconds = 0\<rparr>\<rparr>"
  have reach: "process_reviews sample_lib dry_run accepting ?rr ?st
                 [Some (api_review ''r0'' 1 ''bad'')] = Inr ?st"
    by (simp add: process_review_def userComment_def api_review_def filtered_out_def)
  have uc: "userComment (api_review rid 5 t) = Inr (?uc t)" for rid t
    by (simp add: userComment_def api_review_def)
  have pass: "\<not> filtered_out ?rr (StarRating (?uc t))" for t
    by (simp add: filtered_out_def)
  have stored: "existingReviews ?st ''r2'' = Some sample_stored" "Notified sample_stored"
    "existingReviews ?st ''r1'' = None"
    by (simp_all add: start_state_def sample_stored_def)
  have fresh: "''r1'' \<notin> set (fetched_ids [Some (api_review ''r0'' 1 ''bad'')])"
    by (simp add: fetched_ids_def api_review_def)
  have id: "ReviewId (api_review rid n t) = rid" for rid n t
    by (simp add: api_review_def)
  have nr: "newReview_of sample_lib (api_review ''r1'' 5 ''great!'') (?uc ''great!'')
              \<lparr>Seconds = 0\<rparr> = sample_new"
    by (simp add: newReview_of_def api_review_def sample_new_def cleanText_def
        sample_lib_def is_space_def)
  have send: "sendToWebhook sample_lib dry_run accepting sample_new (env ?st)
       = (Inr (), \<lparr>trace = [LogTestMode (message_text sample_lib (concat (replicate 5 star))
                                          sample_new), Sleep 2],
                   posts = 0\<rparr>)"
    by (simp add: sendToWebhook_def Repeat_star_def sample_new_def dry_run_def
        start_state_def Let_def)
  note T = notification_candidate [OF reach uc pass]
  from T [of "''r2''" "''better''"] stored
  have skip: "process_review sample_lib dry_run accepting ?rr ?st
                (Some (api_review ''r2'' 5 ''better'')) = Inr ?st"
    by (simp add: id)
  have lm: "LastModified (?uc ''great!'') = Some \<lparr>Seconds = 0\<rparr>"
    by simp
  from T [of "''r1''" "''great!''"] stored(3)
  have "\<forall>ts res w. LastModified (?uc ''great!'') = Some ts
          \<and> sendToWebhook sample_lib dry_run accepting
               (newReview_of sample_lib (api_review ''r1'' 5 ''great!'') (?uc ''great!'') ts)
               (env ?st) = (res, w)
        \<longrightarrow> process_review sample_lib dry_run accepting ?rr ?st
               (Some (api_review ''r1'' 5 ''great!''))
            = (case res of
                 Inl Panic \<Rightarrow> Inl Panic
               | Inl (Error err) \<Rightarrow>
                   Inr (?st\<lparr>env := w\<lparr>trace := trace w
                           @ [LogSendFailed (ReviewId (api_review ''r1'' 5 ''great!'')) err]\<rparr>\<rparr>)
               | Inr u \<Rightarrow>
                   Inr (?st\<lparr>newReviews := newReviews ?st
                             @ [(newReview_of sample_lib (api_review ''r1'' 5 ''great!'')
                                   (?uc ''great!'') ts)\<lparr>Notified := True\<rparr>],
                           existingReviews := (existingReviews ?st)
                             (ReviewId (api_review ''r1'' 5 ''great!'') \<mapsto>
                                (newReview_of sample_lib (api_review ''r1'' 5 ''great!'')
                                   (?uc ''great!'') ts)\<lparr>Notified := True\<rparr>),
                           env := w\<rparr>))"
    unfolding id by blast
  from this [rule_format, of "\<lparr>Seconds = 0\<rparr>" "Inr ()"
      "\<lparr>trace = [LogTestMode (message_text sample_lib (concat (replicate 5 star))
                                          sample_new), Sleep 2],
                   posts = 0\<rparr>"] lm send
  have attempt: "process_review sample_lib dry_run accepting ?rr ?st
         (Some (api_review ''r1'' 5 ''great!''))
       = Inr \<lparr>existingReviews = [''r2'' \<mapsto> sample_stored,
                                  ''r1'' \<mapsto> sample_new\<lparr>Notified := True\<rparr>],
              newReviews = [sample_new\<lparr>Notified := True\<rparr>],
              env = \<lparr>trace = [LogTestMode (message_text sample_lib
                                   (concat (replicate 5 star)) sample_new), Sleep 2],
                     posts = 0\<rparr>\<rparr>"
    by (simp add: nr id start_state_def)
  from reach pass [of "''x''"] stored fresh skip send attempt show ?thesis by simp
qed

section \<open>What \<^verbatim>\<open>saveReviews\<close> leaves in the file\<close>

text \<open>
  Whatever a call of \<^verbatim>\<open>writer.Write\<close> returns, the file holds a prefix of the bytes
  handed to the writer so far; when the call returns without an error, file and buffer
  together hold all of them.
\<close>

lemma prefix_extend:
  assumes "x = b @ m"
  shows "\<exists>more. x @ t = b @ more"
  using assms by simp

lemma writer_Write_bytes:
  assumes "writer_Write out w line = (res, w')"
  shows "res = Inr () \<Longrightarrow> written w' @ pending w' = written w @ pending w @ line"
    and "\<exists>more. written w @ pending w @ line = written w' @ more"
proof -
  have split: "take k (pending w @ line) @ drop k (pending w @ line) = pending w @ line"
    for k by (rule append_take_drop_id)
  show "res = Inr () \<Longrightarrow> written w' @ pending w' = written w @ pending w @ line"
    using assms split
    by (cases out) (auto simp: writer_Write_def split: if_splits)
  show "\<exists>more. written w @ pending w @ line = written w' @ more"
  proof (cases "length (pending w) + length line \<le> buffer_size")
    case True
    with assms show ?thesis by (auto simp: writer_Write_def)
  next
    case False
    with assms obtain k where "written w' = written w @ take k (pending w @ line)"
      by (cases out) (auto simp: writer_Write_def)
    with split [of k] have "written w @ pending w @ line
        = written w' @ drop k (pending w @ line)"
      by simp
    then show ?thesis by blast
  qed
qed

lemma write_records_bytes:
  assumes "write_records l sp n w reviews = (res, w')"
  shows "(res = Inr () \<longrightarrow> written w' @ pending w'
            = written w @ pending w @ rows_bytes l reviews)
       \<and> (\<exists>more. written w @ pending w @ rows_bytes l reviews
            = written w' @ more)"
  using assms
proof (induction reviews arbitrary: n w)
  case Nil
  then show ?case by auto
next
  case (Cons review rest)
  let ?line = "csv_line l (record_of l review)"
  let ?tail = "rows_bytes l rest"
  obtain r1 w1 where w1: "writer_Write (sp n) w ?line = (r1, w1)"
    by (cases "writer_Write (sp n) w ?line")
  from writer_Write_bytes(2) [OF w1] obtain m1 where
    m1: "written w @ pending w @ ?line = written w1 @ m1"
    by blast
  show ?case
  proof (cases r1)
    case (Inl e)
    with Cons.prems w1 have r: "res = Inl (Error ''failed to write record'')" "w' = w1"
      by simp_all
    from prefix_extend [OF m1, of ?tail] r show ?thesis by simp
  next
    case (Inr u)
    with Cons.prems w1 have rest: "write_records l sp (Suc n) w1 rest = (res, w')"
      by simp
    from Inr writer_Write_bytes(1) [OF w1]
    have "written w1 @ pending w1 = written w @ pending w @ ?line"
      by simp
    then have "(written w1 @ pending w1) @ ?tail = (written w @ pending w @ ?line) @ ?tail"
      by simp
    then have eq: "written w1 @ pending w1 @ ?tail = written w @ pending w @ ?line @ ?tail"
      by simp
    from Cons.IH [OF rest] show ?thesis
      unfolding eq by simp
  qed
qed

lemma write_records_undisturbed:
  assumes "\<forall>n k. sp n \<noteq> Failed k"
  shows "\<exists>w'. write_records l sp n w reviews = (Inr (), w')"
proof (induction reviews arbitrary: n w)
  case Nil
  show ?case by simp
next
  case (Cons review rest)
  have "\<exists>w1. writer_Write (sp n) w (csv_line l (record_of l review)) = (Inr (), w1)"
    using assms by (cases "sp n") (auto simp: writer_Write_def)
  then obtain w1 where
    "writer_Write (sp n) w (csv_line l (record_of l review)) = (Inr (), w1)"
    by blast
  with Cons.IH [of "Suc n" w1] show ?case by simp
qed

lemma write_file_bytes:
  assumes "write_file l env_io reviews = (res, bytes)"
  shows "(res = Inr () \<and> flush_fails env_io = None \<longrightarrow> bytes = encoding l reviews)
       \<and> (\<exists>more. encoding l reviews = bytes @ more)"
proof -
  let ?w0 = "\<lparr>written = [], pending = []\<rparr>"
  let ?body = "rows_bytes l reviews"
  have enc: "encoding l reviews = csv_line l header @ ?body"
    by (simp add: encoding_def)
  obtain r1 w1 where w1: "writer_Write (spill env_io 0) ?w0 (csv_line l header) = (r1, w1)"
    by (cases "writer_Write (spill env_io 0) ?w0 (csv_line l header)")
  from writer_Write_bytes(2) [OF w1] obtain m1 where
    m1: "csv_line l header = written w1 @ m1"
    by auto
  show ?thesis
  proof (cases r1)
    case (Inl e)
    with assms w1 have r: "res = Inl (Error ''failed to write header'')" "bytes = written w1"
      by (simp_all add: write_file_def)
    from prefix_extend [OF m1, of ?body] r enc show ?thesis by simp
  next
    case (Inr u)
    with writer_Write_bytes(1) [OF w1]
    have h: "written w1 @ pending w1 = csv_line l header"
      by simp
    then have "(written w1 @ pending w1) @ ?body = csv_line l header @ ?body"
      by simp
    then have h': "written w1 @ pending w1 @ ?body = encoding l reviews"
      unfolding enc by simp
    obtain r2 w2 where w2: "write_records l (spill env_io) 1 w1 reviews = (r2, w2)"
      by (cases "write_records l (spill env_io) 1 w1 reviews")
    note B = write_records_bytes [OF w2, unfolded h']
    show ?thesis
    proof (cases r2)
      case (Inl e)
      with assms w1 \<open>r1 = Inr u\<close> w2 have "res = Inl e" "bytes = written w2"
        by (simp_all add: write_file_def)
      with B show ?thesis by auto
    next
      case (Inr v)
      with assms w1 \<open>r1 = Inr u\<close> w2 have res: "res = Inr ()"
        and bytes: "bytes = writer_Flush (flush_fails env_io) w2"
        by (simp_all add: write_file_def)
      from B Inr have all: "written w2 @ pending w2 = encoding l reviews"
        by simp
      show ?thesis
      proof (cases "flush_fails env_io")
        case None
        with bytes all show ?thesis by (simp add: writer_Flush_def)
      next
        case (Some k)
        with bytes have "bytes = written w2 @ take k (pending w2)"
          by (simp add: writer_Flush_def)
        moreover have "written w2 @ pending w2
            = (written w2 @ take k (pending w2)) @ drop k (pending w2)"
          by simp
        ultimately have "encoding l reviews = bytes @ drop k (pending w2)"
          using all by simp
        with Some show ?thesis by auto
      qed
    qed
  qed
qed

lemma write_file_undisturbed:
  assumes "undisturbed env_io"
  shows "write_file l env_io reviews = (Inr (), encoding l reviews)"
proof -
  let ?w0 = "\<lparr>written = [], pending = []\<rparr>"
  from assms have nf: "\<forall>n k. spill env_io n \<noteq> Failed k" and fl: "flush_fails env_io = None"
    by (simp_all add: undisturbed_def)
  have "\<exists>w1. writer_Write (spill env_io 0) ?w0 (csv_line l header) = (Inr (), w1)"
    using nf by (cases "spill env_io 0") (auto simp: writer_Write_def)
  then obtain w1 where
    w1: "writer_Write (spill env_io 0) ?w0 (csv_line l header) = (Inr (), w1)"
    by blast
  from write_records_undisturbed [OF nf] obtain w2 where
    w2: "write_records l (spill env_io) 1 w1 reviews = (Inr (), w2)"
    by blast
  from w1 w2 have "write_file l env_io reviews
      = (Inr (), writer_Flush (flush_fails env_io) w2)"
    by (simp add: write_file_def)
  with write_file_bytes [of l env_io reviews "Inr ()" "writer_Flush (flush_fails env_io) w2"] fl
  show ?thesis by simp
qed

lemma saveReviews_create_fails:
  "\<not> create_ok env_io \<Longrightarrow>
     saveReviews l env_io reviews d = (Inl (Error ''failed to create CSV file''), d)"
  by (simp add: saveReviews_def)

lemma saveReviews_undisturbed:
  "undisturbed env_io \<Longrightarrow>
     saveReviews l env_io reviews d = (Inr (), disk_of l (encoding l reviews))"
  by (simp add: saveReviews_def write_file_undisturbed) (simp add: undisturbed_def)

lemma saveReviews_complete:
  assumes "saveReviews l env_io reviews d = (Inr (), d')" and "flush_fails env_io = None"
  shows "d' = disk_of l (encoding l reviews)"
proof -
  from assms(1) have c: "create_ok env_io"
    by (auto simp: saveReviews_def split: if_splits)
  obtain res bytes where w: "write_file l env_io reviews = (res, bytes)"
    by (cases "write_file l env_io reviews")
  with assms(1) c have "res = Inr ()" "d' = disk_of l bytes"
    by (simp_all add: saveReviews_def)
  with write_file_bytes [OF w] assms(2) show ?thesis by simp
qed

lemma saveReviews_partial:
  assumes "saveReviews l env_io reviews d = (res, d')" and "create_ok env_io"
  shows "\<exists>bytes more. d' = disk_of l bytes \<and> encoding l reviews = bytes @ more"
proof -
  obtain r bytes where w: "write_file l env_io reviews = (r, bytes)"
    by (cases "write_file l env_io reviews")
  with assms have "d' = disk_of l bytes"
    by (simp add: saveReviews_def)
  with write_file_bytes [OF w] show ?thesis by blast
qed

lemma set_allReviews_of:
  "set (allReviews_of ks reviews) = {e. \<exists>k \<in> set ks. reviews k = Some e}"
  unfolding allReviews_of_def
  by (induction ks) (auto split: option.splits)

text \<open>The list of new reviews and the event trace only grow.\<close>

lemma process_review_grows:
  assumes "process_review l cfg net ratingRange st r = Inr st'"
  shows "\<exists>added evs. newReviews st' = newReviews st @ added
           \<and> trace (env st') = trace (env st) @ evs"
  using assms
proof (cases rule: process_review_Inr)
  case (failed review uc ts err w)
  from sendToWebhook_trace [OF failed(6)] failed(7) show ?thesis by auto
next
  case (delivered review uc ts w)
  from sendToWebhook_trace [OF delivered(6)] delivered(7) show ?thesis by auto
qed simp

lemma process_reviews_grows:
  assumes "process_reviews l cfg net ratingRange st rs = Inr st'"
  shows "\<exists>added evs. newReviews st' = newReviews st @ added
           \<and> trace (env st') = trace (env st) @ evs"
  using assms
proof (induction rs arbitrary: st)
  case Nil
  then show ?case by simp
next
  case (Cons r rs)
  from Cons.prems obtain st1 where
    s1: "process_review l cfg net ratingRange st r = Inr st1"
    and s2: "process_reviews l cfg net ratingRange st1 rs = Inr st'"
    by (auto split: sum.splits)
  from process_review_grows [OF s1] Cons.IH [OF s2] show ?case by auto
qed

lemma process_reviews_newReviews:
  assumes "process_reviews l cfg net ratingRange st rs = Inr st'"
  shows "set (newReviews st) \<subseteq> set (newReviews st')"
  using process_reviews_grows [OF assms] by auto

section \<open>The sample CSV writer and reader\<close>

lemma split_on_not_Nil: "split_on c s \<noteq> []"
  by (induction s) (auto split: list.splits)

lemma split_on_replicate:
  assumes "x \<noteq> c"
  shows "split_on c (replicate n x @ ys)
           = (replicate n x @ hd (split_on c ys)) # tl (split_on c ys)"
proof (induction n)
  case 0
  show ?case using split_on_not_Nil [of c ys] by simp
next
  case (Suc n)
  with assms show ?case by simp
qed

lemma header_line:
  "csv_line sample_lib header
     = ''Review ID,Rating,Review Text,Author,Device,Date,Notified\<newline>''"
  by (simp add: sample_lib_def header_def)

lemma long_line:
  "csv_line sample_lib (record_of sample_lib long_stored)
     = ''r2,2,'' @ long_text @ '',Ann,Pixel,1970-01-01T00:00:00Z,true\<newline>''"
  by (simp add: sample_lib_def record_of_def long_stored_def FormatBool_def)

lemma length_long_line:
  "length (csv_line sample_lib (record_of sample_lib long_stored)) = 4042"
  by (simp add: long_line long_text_def)

lemma length_header_line: "length (csv_line sample_lib header) = 57"
  by (simp add: header_line)

text \<open>The first 4096 bytes of the state file that holds the long record.\<close>

lemma long_file_cut:
  "take buffer_size (csv_line sample_lib header
       @ csv_line sample_lib (record_of sample_lib long_stored))
     = ''Review ID,Rating,Review Text,Author,Device,Date,Notified\<newline>''
       @ ''r2,2,'' @ long_text @ '',Ann,Pixel,1970-01-01T00:00:00Z,tr''"
  by (simp add: header_line long_line long_text_def buffer_size_def)

lemma parse_empty: "sample_parse [] = Some []"
  by (simp add: sample_parse_def)

lemma parse_cut:
  "sample_parse (''Review ID,Rating,Review Text,Author,Device,Date,Notified\<newline>''
       @ ''r2,2,'' @ long_text @ '',Ann,Pixel,1970-01-01T00:00:00Z,tr'')
     = Some [header,
             [''r2'', ''2'', long_text, ''Ann'', ''Pixel'', ''1970-01-01T00:00:00Z'', ''tr'']]"
proof -
  have x: "CHR ''x'' \<noteq> CHR ''\<newline>''" "CHR ''x'' \<noteq> CHR '',''" by simp_all
  have lines: "split_on CHR ''\<newline>''
        (''Review ID,Rating,Review Text,Author,Device,Date,Notified\<newline>''
           @ ''r2,2,'' @ long_text @ '',Ann,Pixel,1970-01-01T00:00:00Z,tr'')
      = [''Review ID,Rating,Review Text,Author,Device,Date,Notified'',
         ''r2,2,'' @ long_text @ '',Ann,Pixel,1970-01-01T00:00:00Z,tr'']"
    by (simp add: long_text_def split_on_replicate [OF x(1)])
  have fields: "split_on CHR '','' (''r2,2,'' @ long_text @ '',Ann,Pixel,1970-01-01T00:00:00Z,tr'')
      = [''r2'', ''2'', long_text, ''Ann'', ''Pixel'', ''1970-01-01T00:00:00Z'', ''tr'']"
    by (simp add: long_text_def split_on_replicate [OF x(2)])
  have hfields: "split_on CHR '','' ''Review ID,Rating,Review Text,Author,Device,Date,Notified''
      = header"
    by (simp add: header_def)
  have clean: "CHR 0x22 \<notin> set (''Review ID,Rating,Review Text,Author,Device,Date,Notified\<newline>''
       @ ''r2,2,'' @ long_text @ '',Ann,Pixel,1970-01-01T00:00:00Z,tr'')"
    "CHR 0x0D \<notin> set (''Review ID,Rating,Review Text,Author,Device,Date,Notified\<newline>''
       @ ''r2,2,'' @ long_text @ '',Ann,Pixel,1970-01-01T00:00:00Z,tr'')"
    by (simp_all add: long_text_def)
  have ne: "''r2,2,'' @ long_text @ '',Ann,Pixel,1970-01-01T00:00:00Z,tr'' \<noteq> []"
    by simp
  show ?thesis
    unfolding sample_parse_def lines
    using clean ne fields hfields by simp
qed

section \<open>State sets across runs\<close>

lemma read_record_Inr:
  assumes "read_record l m row = Inr m'"
  shows "\<exists>e. m' = m(row ! 0 \<mapsto> e) \<and> ReviewID e = row ! 0 \<and> Notified e = ParseBool (row ! 6)"
  using assms by (auto simp: read_record_def Let_def split: if_splits)

lemma read_records_keyed:
  assumes "read_records l m rows = Inr m'" and "keyed m"
  shows "keyed m'"
  using assms
proof (induction rows arbitrary: m)
  case Nil
  then show ?case by simp
next
  case (Cons row rows)
  from Cons.prems(1) obtain m1 where
    m1: "read_record l m row = Inr m1" and rest: "read_records l m1 rows = Inr m'"
    by (auto split: sum.splits)
  from read_record_Inr [OF m1] Cons.prems(2) have "keyed m1"
    by (auto simp: keyed_def split: if_splits)
  with rest show ?case by (rule Cons.IH)
qed

lemma readExistingReviews_keyed:
  assumes "readExistingReviews l d = Inr m"
  shows "keyed m"
proof (cases "d = NoFile")
  case True
  with assms show ?thesis by (auto simp: readExistingReviews_def keyed_def)
next
  case False
  with assms obtain data where "read_records l Map.empty data = Inr m"
    by (auto simp: readExistingReviews_def dest!: ReadAll_Inr
        split: disk.splits sum.splits list.splits)
  then show ?thesis by (rule read_records_keyed) (simp add: keyed_def)
qed

lemma process_review_keyed:
  assumes "process_review l cfg net ratingRange st r = Inr st'"
    and "keyed (existingReviews st)"
  shows "keyed (existingReviews st')"
  using assms(1)
proof (cases rule: process_review_Inr)
  case (delivered review uc ts w)
  with assms(2) show ?thesis by (auto simp: keyed_def newReview_of_def)
qed (use assms(2) in simp_all)

lemma process_reviews_keyed:
  assumes "process_reviews l cfg net ratingRange st rs = Inr st'"
    and "keyed (existingReviews st)"
  shows "keyed (existingReviews st')"
  using assms
proof (induction rs arbitrary: st)
  case Nil
  then show ?case by simp
next
  case (Cons r rs)
  from Cons.prems(1) obtain st1 where
    s1: "process_review l cfg net ratingRange st r = Inr st1"
    and s2: "process_reviews l cfg net ratingRange st1 rs = Inr st'"
    by (auto split: sum.splits)
  from process_review_keyed [OF s1 Cons.prems(2)] show ?case
    by (rule Cons.IH [OF s2])
qed

lemma ParseBool_FormatBool: "ParseBool (FormatBool b) = b"
  by (simp add: ParseBool_def FormatBool_def)

text \<open>
  Reading back rows that \<^verbatim>\<open>saveReviews\<close> wrote never panics. Under an id all of whose
  written records are notified, the map read is empty or notified if it was so before,
  and notified as soon as one such record was written.
\<close>

lemma read_records_saved:
  assumes "\<forall>e \<in> set reviews. ReviewID e = k \<longrightarrow> Notified e"
  shows "\<exists>m'. read_records l m (map (record_of l) reviews) = Inr m'
           \<and> ((m k = None \<or> (\<exists>e. m k = Some e \<and> Notified e))
                \<longrightarrow> (m' k = None \<or> (\<exists>e. m' k = Some e \<and> Notified e)))
           \<and> (((\<exists>e \<in> set reviews. ReviewID e = k) \<or> (\<exists>e. m k = Some e \<and> Notified e))
                \<longrightarrow> (\<exists>e. m' k = Some e \<and> Notified e))"
  using assms
proof (induction reviews arbitrary: m)
  case Nil
  then show ?case by simp
next
  case (Cons x xs)
  define m1 where "m1 = m(ReviewID x \<mapsto>
      \<lparr>ReviewID = ReviewID x, Rating = Atoi l (Itoa l (Rating x)), Text = Text x,
       Author = Author x, Device = Device x,
       Date = ParseRFC3339 l (FormatRFC3339 l (Date x)), Notified = Notified x\<rparr>)"
  have step: "read_record l m (record_of l x) = Inr m1"
    by (simp add: read_record_def record_of_def m1_def ParseBool_FormatBool)
  from Cons.prems have xs: "\<forall>e \<in> set xs. ReviewID e = k \<longrightarrow> Notified e"
    and x: "ReviewID x = k \<Longrightarrow> Notified x"
    by auto
  from Cons.IH [OF xs, of m1] obtain m' where
    r: "read_records l m1 (map (record_of l) xs) = Inr m'"
    and a: "m1 k = None \<or> (\<exists>e. m1 k = Some e \<and> Notified e)
            \<Longrightarrow> m' k = None \<or> (\<exists>e. m' k = Some e \<and> Notified e)"
    and b: "(\<exists>e \<in> set xs. ReviewID e = k) \<or> (\<exists>e. m1 k = Some e \<and> Notified e)
            \<Longrightarrow> \<exists>e. m' k = Some e \<and> Notified e"
    by blast
  have m1k: "m1 k = (if ReviewID x = k then m1 k else m k)"
    by (simp add: m1_def)
  have m1n: "ReviewID x = k \<Longrightarrow> \<exists>e. m1 k = Some e \<and> Notified e"
    using x by (simp add: m1_def)
  have "read_records l m (map (record_of l) (x # xs)) = Inr m'"
    using step r by simp
  moreover have "m' k = None \<or> (\<exists>e. m' k = Some e \<and> Notified e)"
    if "m k = None \<or> (\<exists>e. m k = Some e \<and> Notified e)"
    using that a m1k m1n by (cases "ReviewID x = k") auto
  moreover have "\<exists>e. m' k = Some e \<and> Notified e"
    if "(\<exists>e \<in> set (x # xs). ReviewID e = k) \<or> (\<exists>e. m k = Some e \<and> Notified e)"
    using that b m1k m1n by (cases "ReviewID x = k") auto
  ultimately show ?case by blast
qed

lemma readExistingReviews_saved:
  "readExistingReviews l (Rows (header # map (record_of l) reviews))
     = read_records l Map.empty (map (record_of l) reviews)"
  by (simp add: readExistingReviews_def header_def record_of_def)

section \<open>The run as a whole\<close>

text \<open>
  A run either leaves the state file alone and does not complete, or it has loaded the
  state, gone through the whole review loop and called \<^verbatim>\<open>saveReviews\<close> on the final
  state set; it completes only if the save returned without an error.
\<close>

lemma main_run_cases:
  assumes "main_run l cfg net env_io ks ratingRange d fetched = (out, d')"
  obtains (untouched) "d' = d" "\<And>st. out \<noteq> Completed st"
  | (saved) m0 reviews stL res where
      "readExistingReviews l d = Inr m0" "fetched = Inr reviews"
      "process_reviews l cfg net ratingRange (start_state m0) reviews = Inr stL"
      "saveReviews l env_io (allReviews_of ks (existingReviews stL)) d = (res, d')"
      "\<And>st. out = Completed st \<Longrightarrow>
         res = Inr () \<and> existingReviews st = existingReviews stL
         \<and> newReviews st = newReviews stL"
      "\<And>err. res = Inl (Error err) \<Longrightarrow> out = Fatal (''Failed to save reviews: '' @ err)"
proof (cases "readExistingReviews l d")
  case (Inl e)
  with assms have "d' = d" "\<And>st. out \<noteq> Completed st"
    by (auto simp: main_run_def split: error.splits)
  then show ?thesis by (rule untouched)
next
  case (Inr m0)
  note m0 = this
  show ?thesis
  proof (cases fetched)
    case (Inl err)
    with assms m0 have "d' = d" "\<And>st. out \<noteq> Completed st"
      by (auto simp: main_run_def)
    then show ?thesis by (rule untouched)
  next
    case (Inr reviews)
    note reviews = this
    show ?thesis
    proof (cases "process_reviews l cfg net ratingRange (start_state m0) reviews")
      case (Inl e)
      with assms m0 reviews have "d' = d" "\<And>st. out \<noteq> Completed st"
        by (auto simp: main_run_def)
      then show ?thesis by (rule untouched)
    next
      case (Inr stL)
      note stL = this
      obtain res d1 where
        sv: "saveReviews l env_io (allReviews_of ks (existingReviews stL)) d = (res, d1)"
        by (cases "saveReviews l env_io (allReviews_of ks (existingReviews stL)) d")
      have run: "(out, d') =
         (case res of
            Inl Panic \<Rightarrow> (Crashed, d1)
          | Inl (Error err) \<Rightarrow> (Fatal (''Failed to save reviews: '' @ err), d1)
          | Inr u \<Rightarrow>
              (case log_results l (newReviews stL) (env stL) of
                 Inl e \<Rightarrow> (Crashed, d1)
               | Inr w \<Rightarrow> (Completed (stL\<lparr>env := w\<rparr>), d1)))"
        using assms m0 reviews stL sv by (simp add: main_run_def)
      then have d1: "d1 = d'"
        by (auto split: sum.splits error.splits)
      from run have c: "res = Inr () \<and> existingReviews st = existingReviews stL
           \<and> newReviews st = newReviews stL" if "out = Completed st" for st
        using that by (auto split: sum.splits error.splits)
      from run have f: "out = Fatal (''Failed to save reviews: '' @ err)"
        if "res = Inl (Error err)" for err
        using that by simp
      from m0 reviews stL sv [unfolded d1] c f show ?thesis by (rule saved)
    qed
  qed
qed


text \<open>
  Every record among the new reviews has passed the notifier, so its rating is one that
  \<^verbatim>\<open>strings.Repeat\<close> accepts, and the final report does not panic.
\<close>

lemma sendToWebhook_Inr_rating:
  assumes "sendToWebhook l cfg net review w = (Inr (), w')"
  shows "\<exists>s. Repeat_star (Rating review) = Inr s"
  using assms by (cases "Repeat_star (Rating review)") (auto simp: sendToWebhook_def)

lemma process_review_ratings:
  assumes "process_review l cfg net ratingRange st r = Inr st'"
    and "\<forall>b \<in> set (newReviews st). \<exists>s. Repeat_star (Rating b) = Inr s"
  shows "\<forall>b \<in> set (newReviews st'). \<exists>s. Repeat_star (Rating b) = Inr s"
  using assms(1)
proof (cases rule: process_review_Inr)
  case (delivered review uc ts w)
  from sendToWebhook_Inr_rating [OF delivered(6)] delivered(7) assms(2)
  show ?thesis by auto
qed (use assms(2) in simp_all)

lemma process_reviews_ratings:
  assumes "process_reviews l cfg net ratingRange st rs = Inr st'"
    and "\<forall>b \<in> set (newReviews st). \<exists>s. Repeat_star (Rating b) = Inr s"
  shows "\<forall>b \<in> set (newReviews st'). \<exists>s. Repeat_star (Rating b) = Inr s"
  using assms
proof (induction rs arbitrary: st)
  case Nil
  then show ?case by simp
next
  case (Cons r rs)
  from Cons.prems(1) obtain mid where
    s1: "process_review l cfg net ratingRange st r = Inr mid"
    and s2: "process_reviews l cfg net ratingRange mid rs = Inr st'"
    by (auto split: sum.splits)
  from process_review_ratings [OF s1 Cons.prems(2)] show ?case
    by (rule Cons.IH [OF s2])
qed

lemma log_new_reviews_Inr:
  assumes "\<forall>b \<in> set new. \<exists>s. Repeat_star (Rating b) = Inr s"
  shows "\<exists>w'. log_new_reviews l i new w = Inr w'"
  using assms
proof (induction new arbitrary: i w)
  case Nil
  show ?case by simp
next
  case (Cons b new)
  then obtain s where "Repeat_star (Rating b) = Inr s" by auto
  with Cons show ?case by simp
qed

lemma log_results_Inr:
  assumes "\<forall>b \<in> set new. \<exists>s. Repeat_star (Rating b) = Inr s"
  shows "\<exists>w'. log_results l new w = Inr w'"
  using log_new_reviews_Inr [OF assms] by (simp add: log_results_def)

text \<open>
  A run that loads its state, completes the review loop and meets no failure on the file
  completes, and the file holds the bytes of the final state set.
\<close>

lemma main_run_undisturbed:
  assumes "readExistingReviews l d = Inr prior"
    and "process_reviews l cfg net ratingRange (start_state prior) fetched = Inr stN"
    and "undisturbed env_io"
  shows "\<exists>w. main_run l cfg net env_io ks ratingRange d (Inr fetched)
           = (Completed (stN\<lparr>env := w\<rparr>),
              disk_of l (encoding l (allReviews_of ks (existingReviews stN))))"
proof -
  have "\<forall>b \<in> set (newReviews (start_state prior)). \<exists>s. Repeat_star (Rating b) = Inr s"
    by (simp add: start_state_def)
  from process_reviews_ratings [OF assms(2) this]
  obtain w where "log_results l (newReviews stN) (env stN) = Inr w"
    using log_results_Inr by blast
  with assms(1,2) saveReviews_undisturbed [OF assms(3)]
  have "main_run l cfg net env_io ks ratingRange d (Inr fetched)
           = (Completed (stN\<lparr>env := w\<rparr>),
              disk_of l (encoding l (allReviews_of ks (existingReviews stN))))"
    by (simp add: main_run_def)
  then show ?thesis by blast
qed

text \<open>The line of every record handed to the writer is part of the complete file.\<close>

lemma rows_bytes_mem:
  assumes "e \<in> set reviews"
  shows "\<exists>pre post. rows_bytes l reviews = pre @ csv_line l (record_of l e) @ post"
  using assms
proof (induction reviews)
  case Nil
  then show ?case by simp
next
  case (Cons x xs)
  show ?case
  proof (cases "e = x")
    case True
    have "rows_bytes l (x # xs) = [] @ csv_line l (record_of l x) @ rows_bytes l xs"
      by simp
    with True show ?thesis by blast
  next
    case False
    with Cons obtain pre post where "rows_bytes l xs = pre @ csv_line l (record_of l e) @ post"
      by auto
    then have "rows_bytes l (x # xs)
        = (csv_line l (record_of l x) @ pre) @ csv_line l (record_of l e) @ post"
      by simp
    then show ?thesis by blast
  qed
qed

lemma encoding_mem:
  assumes "e \<in> set reviews"
  shows "\<exists>pre post. encoding l reviews = pre @ csv_line l (record_of l e) @ post"
proof -
  from rows_bytes_mem [OF assms] obtain pre post where
    "rows_bytes l reviews = pre @ csv_line l (record_of l e) @ post"
    by blast
  then have "encoding l reviews = (csv_line l header @ pre) @ csv_line l (record_of l e) @ post"
    by (simp add: encoding_def)
  then show ?thesis by blast
qed

section \<open>A state file that fits the buffer\<close>

text \<open>
  While everything fits into the buffer nothing is written to the file: the file gets
  its bytes from the final flush alone, all of them or, when the flush fails, the first
  few.
\<close>

lemma write_records_fits:
  assumes "length (pending w) + length (rows_bytes l reviews) \<le> buffer_size"
  shows "write_records l sp n w reviews
           = (Inr (), w\<lparr>pending := pending w @ rows_bytes l reviews\<rparr>)"
  using assms
proof (induction reviews arbitrary: n w)
  case Nil
  show ?case by simp
next
  case (Cons review rest)
  let ?line = "csv_line l (record_of l review)"
  from Cons.prems have fit: "length (pending w) + length ?line \<le> buffer_size"
    and rest: "length (pending (w\<lparr>pending := pending w @ ?line\<rparr>))
                 + length (rows_bytes l rest) \<le> buffer_size"
    by simp_all
  from fit have "writer_Write (sp n) w ?line = (Inr (), w\<lparr>pending := pending w @ ?line\<rparr>)"
    by (simp add: writer_Write_def)
  with Cons.IH [OF rest] show ?case by simp
qed

lemma saveReviews_fits:
  assumes "create_ok env_io" and "length (encoding l reviews) \<le> buffer_size"
  shows "saveReviews l env_io reviews d
           = (Inr (), disk_of l (case flush_fails env_io of
                                   None \<Rightarrow> encoding l reviews
                                 | Some k \<Rightarrow> take k (encoding l reviews)))"
proof -
  let ?w0 = "\<lparr>written = [], pending = []\<rparr>"
  let ?w1 = "\<lparr>written = [], pending = csv_line l header\<rparr>"
  from assms(2) have h: "length (csv_line l header) \<le> buffer_size"
    and r: "length (pending ?w1) + length (rows_bytes l reviews) \<le> buffer_size"
    by (simp_all add: encoding_def)
  from h have "writer_Write (spill env_io 0) ?w0 (csv_line l header) = (Inr (), ?w1)"
    by (simp add: writer_Write_def)
  with write_records_fits [OF r, of "spill env_io" 1]
  have "write_file l env_io reviews
      = (Inr (), writer_Flush (flush_fails env_io)
                   \<lparr>written = [], pending = csv_line l header @ rows_bytes l reviews\<rparr>)"
    by (simp add: write_file_def)
  with assms(1) show ?thesis
    by (simp add: saveReviews_def writer_Flush_def encoding_def split: option.splits)
qed

section \<open>Delivery failure isolation\<close>

text \<open>The live run over two reviews, step by step.\<close>

lemma sample_records:
  "newReview_of sample_lib (api_review ''r1'' 5 ''great!'')
     \<lparr>StarRating = 5, CommentText = ''great!'', DeviceMetadata = None,
        LastModified = Some \<lparr>Seconds = 0\<rparr>\<rparr> \<lparr>Seconds = 0\<rparr> = sample_new"
  "newReview_of sample_lib (api_review ''r3'' 2 ''slow'')
     \<lparr>StarRating = 2, CommentText = ''slow'', DeviceMetadata = None,
        LastModified = Some \<lparr>Seconds = 0\<rparr>\<rparr> \<lparr>Seconds = 0\<rparr> = sample_other"
  by (simp_all add: newReview_of_def api_review_def sample_new_def sample_other_def
      cleanText_def sample_lib_def is_space_def)

lemma refused_first:
  "sendToWebhook sample_lib live refusing_once sample_new (env (start_state Map.empty))
     = (Inl (Error ''webhook returned non-200 status code: 500''),
        \<lparr>trace = [HttpPost ''https://chat.example/hook''
                    (message_text sample_lib (concat (replicate 5 star)) sample_new)],
         posts = 1\<rparr>)"
  by (simp add: sendToWebhook_def Repeat_star_def sample_new_def live_def refusing_once_def
      sample_lib_def start_state_def Let_def)

lemma accepted_second:
  "sendToWebhook sample_lib live refusing_once sample_other (env after_refusal)
     = (Inr (), env after_delivery)"
  by (simp add: sendToWebhook_def Repeat_star_def sample_other_def live_def refusing_once_def
      sample_lib_def after_refusal_def after_delivery_def Let_def)

lemma two_reviews_loop:
  "process_reviews sample_lib live refusing_once None (start_state Map.empty)
     [Some (api_review ''r1'' 5 ''great!'')] = Inr after_refusal"
  "process_reviews sample_lib live refusing_once None after_refusal
     [Some (api_review ''r3'' 2 ''slow'')] = Inr after_delivery"
  "process_reviews sample_lib live refusing_once None (start_state Map.empty)
     [Some (api_review ''r1'' 5 ''great!''), Some (api_review ''r3'' 2 ''slow'')]
     = Inr after_delivery"
proof -
  have uc: "userComment (api_review rid n t)
      = Inr \<lparr>StarRating = n, CommentText = t, DeviceMetadata = None,
             LastModified = Some \<lparr>Seconds = 0\<rparr>\<rparr>" for rid n t
    by (simp add: userComment_def api_review_def)
  have id: "ReviewId (api_review rid n t) = rid" for rid n t
    by (simp add: api_review_def)
  have a: "process_review sample_lib live refusing_once None (start_state Map.empty)
     (Some (api_review ''r1'' 5 ''great!'')) = Inr after_refusal"
    using refused_first
    by (simp add: process_review_def uc id filtered_out_def not_yet_notified_def
        sample_records Let_def)
      (simp add: start_state_def after_refusal_def)
  have b: "process_review sample_lib live refusing_once None after_refusal
     (Some (api_review ''r3'' 2 ''slow'')) = Inr after_delivery"
    using accepted_second
    by (simp add: process_review_def uc id filtered_out_def not_yet_notified_def
        sample_records Let_def)
      (simp add: after_refusal_def after_delivery_def)
  from a show "process_reviews sample_lib live refusing_once None (start_state Map.empty)
     [Some (api_review ''r1'' 5 ''great!'')] = Inr after_refusal"
    by simp
  from b show "process_reviews sample_lib live refusing_once None after_refusal
     [Some (api_review ''r3'' 2 ''slow'')] = Inr after_delivery"
    by simp
  from a b show "process_reviews sample_lib live refusing_once None (start_state Map.empty)
     [Some (api_review ''r1'' 5 ''great!''), Some (api_review ''r3'' 2 ''slow'')]
     = Inr after_delivery"
    by simp
qed

lemma two_reviews_report:
  "log_results sample_lib (newReviews after_delivery) (env after_delivery) = Inr reported"
  by (simp add: log_results_def after_delivery_def reported_def Repeat_star_def
      sample_other_def)

lemma two_reviews_rows:
  "allReviews_of [''r3''] (existingReviews after_delivery) = [sample_other\<lparr>Notified := True\<rparr>]"
  by (simp add: allReviews_of_def after_delivery_def)

text \<open>
  That run on a disk where the final flush fails: the first delivery is refused, the
  second is accepted and stored as notified, the run completes, and the state file holds
  nothing.
\<close>

theorem delivered_but_not_saved:
  "main_run sample_lib live refusing_once lost_flush [''r3''] None NoFile
     (Inr [Some (api_review ''r1'' 5 ''great!''), Some (api_review ''r3'' 2 ''slow'')])
     = (Completed (after_delivery\<lparr>env := reported\<rparr>), Rows [])"
proof -
  have "length (encoding sample_lib [sample_other\<lparr>Notified := True\<rparr>]) \<le> buffer_size"
    by (simp add: encoding_def header_line buffer_size_def)
      (simp add: sample_lib_def record_of_def sample_other_def FormatBool_def)
  from saveReviews_fits [OF _ this, of lost_flush NoFile]
  have "saveReviews sample_lib lost_flush [sample_other\<lparr>Notified := True\<rparr>] NoFile
      = (Inr (), Rows [])"
    by (simp add: lost_flush_def disk_of_def) (simp add: sample_lib_def parse_empty)
  then show ?thesis
    by (simp add: main_run_def readExistingReviews_def two_reviews_loop(3)
        two_reviews_rows two_reviews_report del: process_reviews.simps)
qed


text \<open>
  C3, as the code has it. Let the loop, in state \<open>st\<close>, reach a candidate review. If its
  delivery fails, the pass ends normally with the state set and the list of new reviews
  as they were, and the loop goes on with the reviews after it. If its delivery
  succeeds, then at the end of every loop that completes the state set holds the record
  under the review's id with \<open>Notified = True\<close> and the record is among the new
  reviews. The record is persisted when the run meets no failure on the state file: then
  the run completes, and the file holds the bytes of the final state set, among them the
  line of that record, whose last field is \<open>true\<close>.
\<close>

theorem delivery_failure_isolation:
  assumes "userComment review = Inr uc" and "LastModified uc = Some ts"
    and "\<not> filtered_out ratingRange (StarRating uc)"
    and "existingReviews st (ReviewId review) = None
         \<or> (\<exists>e. existingReviews st (ReviewId review) = Some e \<and> \<not> Notified e)"
  shows "(sendToWebhook l cfg net (newReview_of l review uc ts) (env st) = (Inl (Error err), w)
          \<longrightarrow> (\<exists>st'. process_review l cfg net ratingRange st (Some review) = Inr st'
                 \<and> existingReviews st' = existingReviews st
                 \<and> newReviews st' = newReviews st
                 \<and> process_reviews l cfg net ratingRange st (Some review # rest)
                     = process_reviews l cfg net ratingRange st' rest))
       \<and> (sendToWebhook l cfg net (newReview_of l review uc ts) (env st) = (Inr (), w)
          \<longrightarrow> (\<forall>stN. process_reviews l cfg net ratingRange st (Some review # rest) = Inr stN
                 \<longrightarrow> existingReviews stN (ReviewId review)
                       = Some ((newReview_of l review uc ts)\<lparr>Notified := True\<rparr>)
                   \<and> (newReview_of l review uc ts)\<lparr>Notified := True\<rparr> \<in> set (newReviews stN)
                   \<and> (readExistingReviews l d = Inr prior
                         \<and> process_reviews l cfg net ratingRange (start_state prior) before
                             = Inr st
                         \<and> ReviewId review \<in> set ks \<and> undisturbed env_io
                        \<longrightarrow> (\<exists>w' pre post.
                               main_run l cfg net env_io ks ratingRange d
                                 (Inr (before @ Some review # rest))
                                 = (Completed (stN\<lparr>env := w'\<rparr>),
                                    disk_of l (encoding l
                                      (allReviews_of ks (existingReviews stN))))
                             \<and> encoding l (allReviews_of ks (existingReviews stN))
                                 = pre @ csv_line l (record_of l
                                     ((newReview_of l review uc ts)\<lparr>Notified := True\<rparr>))
                                   @ post
                             \<and> record_of l ((newReview_of l review uc ts)\<lparr>Notified := True\<rparr>) ! 6
                                 = ''true''))))"
proof -
  let ?nr = "newReview_of l review uc ts"
  let ?b = "?nr\<lparr>Notified := True\<rparr>"
  from assms(4) have cand: "not_yet_notified (existingReviews st) (ReviewId review)"
    by (auto simp: not_yet_notified_def)
  have body: "process_review l cfg net ratingRange st (Some review) =
     (case sendToWebhook l cfg net ?nr (env st) of
        (Inl Panic, w) \<Rightarrow> Inl Panic
      | (Inl (Error err), w) \<Rightarrow>
          Inr (st\<lparr>env := w\<lparr>trace := trace w @ [LogSendFailed (ReviewId review) err]\<rparr>\<rparr>)
      | (Inr u, w) \<Rightarrow>
          Inr (st\<lparr>newReviews := newReviews st @ [?b],
                  existingReviews := (existingReviews st)(ReviewId review \<mapsto> ?b),
                  env := w\<rparr>))"
    using assms(1,2,3) cand
    by (simp add: process_review_def Let_def split: prod.splits sum.splits error.splits)
  have fails: "\<exists>st'. process_review l cfg net ratingRange st (Some review) = Inr st'
                 \<and> existingReviews st' = existingReviews st
                 \<and> newReviews st' = newReviews st
                 \<and> process_reviews l cfg net ratingRange st (Some review # rest)
                     = process_reviews l cfg net ratingRange st' rest"
    if "sendToWebhook l cfg net ?nr (env st) = (Inl (Error err), w)"
    using that body by simp
  have succeeds: "existingReviews stN (ReviewId review) = Some ?b
       \<and> ?b \<in> set (newReviews stN)
       \<and> (readExistingReviews l d = Inr prior
             \<and> process_reviews l cfg net ratingRange (start_state prior) before = Inr st
             \<and> ReviewId review \<in> set ks \<and> undisturbed env_io
            \<longrightarrow> (\<exists>w' pre post.
                   main_run l cfg net env_io ks ratingRange d (Inr (before @ Some review # rest))
                     = (Completed (stN\<lparr>env := w'\<rparr>),
                        disk_of l (encoding l (allReviews_of ks (existingReviews stN))))
                 \<and> encoding l (allReviews_of ks (existingReviews stN))
                     = pre @ csv_line l (record_of l ?b) @ post
                 \<and> record_of l ?b ! 6 = ''true''))"
    if sw: "sendToWebhook l cfg net ?nr (env st) = (Inr (), w)"
      and run: "process_reviews l cfg net ratingRange st (Some review # rest) = Inr stN"
    for stN
  proof -
    let ?st' = "st\<lparr>newReviews := newReviews st @ [?b],
                  existingReviews := (existingReviews st)(ReviewId review \<mapsto> ?b),
                  env := w\<rparr>"
    from body sw have step: "process_review l cfg net ratingRange st (Some review) = Inr ?st'"
      by simp
    with run have rest: "process_reviews l cfg net ratingRange ?st' rest = Inr stN"
      by simp
    have stored: "existingReviews ?st' (ReviewId review) = Some ?b" "Notified ?b"
      by simp_all
    from process_reviews_notified_kept [OF rest stored]
    have final: "existingReviews stN (ReviewId review) = Some ?b" .
    from process_reviews_newReviews [OF rest]
    have new: "?b \<in> set (newReviews stN)" by auto
    have saved: "\<exists>w' pre post.
                   main_run l cfg net env_io ks ratingRange d (Inr (before @ Some review # rest))
                     = (Completed (stN\<lparr>env := w'\<rparr>),
                        disk_of l (encoding l (allReviews_of ks (existingReviews stN))))
                 \<and> encoding l (allReviews_of ks (existingReviews stN))
                     = pre @ csv_line l (record_of l ?b) @ post
                 \<and> record_of l ?b ! 6 = ''true''"
      if load: "readExistingReviews l d = Inr prior"
        and reach: "process_reviews l cfg net ratingRange (start_state prior) before = Inr st"
        and ks: "ReviewId review \<in> set ks" and io: "undisturbed env_io"
    proof -
      from reach run
      have "process_reviews l cfg net ratingRange (start_state prior)
              (before @ Some review # rest) = Inr stN"
        by (simp add: process_reviews_append)
      from main_run_undisturbed [OF load this io, of ks] obtain w' where
        m: "main_run l cfg net env_io ks ratingRange d (Inr (before @ Some review # rest))
              = (Completed (stN\<lparr>env := w'\<rparr>),
                 disk_of l (encoding l (allReviews_of ks (existingReviews stN))))"
        by blast
      from ks final have "?b \<in> set (allReviews_of ks (existingReviews stN))"
        by (auto simp: set_allReviews_of)
      from encoding_mem [OF this, of l] obtain pre post where
        e: "encoding l (allReviews_of ks (existingReviews stN))
              = pre @ csv_line l (record_of l ?b) @ post"
        by blast
      have "record_of l ?b ! 6 = ''true''"
        by (simp add: record_of_def FormatBool_def)
      with m e show ?thesis by blast
    qed
    from final new saved show ?thesis by blast
  qed
  from fails succeeds show ?thesis by blast
qed


lemma undisturbed_sound_io: "undisturbed sound_io"
  by (simp add: undisturbed_def sound_io_def)

lemma two_reviews_file:
  "disk_of sample_lib (encoding sample_lib [sample_other\<lparr>Notified := True\<rparr>])
     = Rows [header, record_of sample_lib (sample_other\<lparr>Notified := True\<rparr>)]"
proof -
  have "encoding sample_lib [sample_other\<lparr>Notified := True\<rparr>]
      = ''Review ID,Rating,Review Text,Author,Device,Date,Notified\<newline>''
        @ ''r3,2,slow,Bob,Unknown,1970-01-01T00:00:00Z,true\<newline>''"
    by (simp add: encoding_def header_line)
      (simp add: sample_lib_def record_of_def sample_other_def FormatBool_def)
  moreover have "sample_parse (''Review ID,Rating,Review Text,Author,Device,Date,Notified\<newline>''
        @ ''r3,2,slow,Bob,Unknown,1970-01-01T00:00:00Z,true\<newline>'')
      = Some [header, [''r3'', ''2'', ''slow'', ''Bob'', ''Unknown'', ''1970-01-01T00:00:00Z'',
                       ''true'']]"
    by (simp add: sample_parse_def header_def)
  moreover have "record_of sample_lib (sample_other\<lparr>Notified := True\<rparr>)
      = [''r3'', ''2'', ''slow'', ''Bob'', ''Unknown'', ''1970-01-01T00:00:00Z'', ''true'']"
    by (simp add: sample_lib_def record_of_def sample_other_def FormatBool_def)
  ultimately show ?thesis
    by (simp add: disk_of_def) (simp add: sample_lib_def)
qed

theorem delivery_failure_isolation_witness:
  "sendToWebhook sample_lib live refusing_once sample_new (env (start_state Map.empty))
     = (Inl (Error ''webhook returned non-200 status code: 500''),
        \<lparr>trace = [HttpPost ''https://chat.example/hook''
                    (message_text sample_lib (concat (replicate 5 star)) sample_new)],
         posts = 1\<rparr>)
   \<and> process_review sample_lib live refusing_once None (start_state Map.empty)
        (Some (api_review ''r1'' 5 ''great!'')) = Inr after_refusal
   \<and> existingReviews after_refusal = Map.empty
   \<and> newReviews after_refusal = []
   \<and> process_reviews sample_lib live refusing_once None (start_state Map.empty)
        (Some (api_review ''r1'' 5 ''great!'') # [Some (api_review ''r3'' 2 ''slow'')])
       = process_reviews sample_lib live refusing_once None after_refusal
           [Some (api_review ''r3'' 2 ''slow'')]
   \<and> sendToWebhook sample_lib live refusing_once sample_other (env after_refusal)
       = (Inr (), env after_delivery)
   \<and> process_reviews sample_lib live refusing_once None after_refusal
        (Some (api_review ''r3'' 2 ''slow'') # []) = Inr after_delivery
   \<and> existingReviews after_delivery ''r3'' = Some (sample_other\<lparr>Notified := True\<rparr>)
   \<and> existingReviews after_delivery ''r1'' = None
   \<and> readExistingReviews sample_lib NoFile = Inr Map.empty
   \<and> undisturbed sound_io
   \<and> (\<exists>w'. main_run sample_lib live refusing_once sound_io [''r3''] None NoFile
          (Inr ([Some (api_review ''r1'' 5 ''great!'')]
                  @ Some (api_review ''r3'' 2 ''slow'') # []))
         = (Completed (after_delivery\<lparr>env := w'\<rparr>),
            Rows [header, record_of sample_lib (sample_other\<lparr>Notified := True\<rparr>)]))
   \<and> record_of sample_lib (sample_other\<lparr>Notified := True\<rparr>) ! 6 = ''true''"
proof -
  let ?A = "api_review ''r1'' 5 ''great!''"
  let ?B = "api_review ''r3'' 2 ''slow''"
  let ?uc = "\<lambda>n t. \<lparr>StarRating = n, CommentText = t, DeviceMetadata = None,
                  LastModified = Some \<lparr>Seconds = 0\<rparr>\<rparr>"
  have uc: "userComment (api_review rid n t) = Inr (?uc n t)" for rid n t
    by (simp add: userComment_def api_review_def)
  have lm: "LastModified (?uc n t) = Some \<lparr>Seconds = 0\<rparr>" for n t
    by simp
  have pass: "\<not> filtered_out None (StarRating (?uc n t))" for n t
    by (simp add: filtered_out_def)
  have id: "ReviewId (api_review rid n t) = rid" for rid n t
    by (simp add: api_review_def)
  have absentA: "existingReviews (start_state Map.empty) (ReviewId ?A) = None
      \<or> (\<exists>e. existingReviews (start_state Map.empty) (ReviewId ?A) = Some e \<and> \<not> Notified e)"
    by (simp add: start_state_def)
  have absentB: "existingReviews after_refusal (ReviewId ?B) = None
      \<or> (\<exists>e. existingReviews after_refusal (ReviewId ?B) = Some e \<and> \<not> Notified e)"
    by (simp add: after_refusal_def)
  have stepA: "process_review sample_lib live refusing_once None (start_state Map.empty)
        (Some ?A) = Inr after_refusal"
    using two_reviews_loop(1) by (simp split: sum.splits)
  have load: "readExistingReviews sample_lib NoFile = Inr Map.empty"
    by (simp add: readExistingReviews_def)
  have ks: "ReviewId ?B \<in> set [''r3'']"
    by (simp add: id)
  note A = delivery_failure_isolation [OF uc lm pass absentA,
      where l = sample_lib and cfg = live and net = refusing_once
        and err = "''webhook returned non-200 status code: 500''"
        and w = "\<lparr>trace = [HttpPost ''https://chat.example/hook''
                    (message_text sample_lib (concat (replicate 5 star)) sample_new)],
                   posts = 1\<rparr>"
        and rest = "[Some ?B]"]
  from A refused_first stepA
  have a: "existingReviews after_refusal = Map.empty \<and> newReviews after_refusal = []
      \<and> process_reviews sample_lib live refusing_once None (start_state Map.empty)
           (Some ?A # [Some ?B])
         = process_reviews sample_lib live refusing_once None after_refusal [Some ?B]"
    by (simp add: sample_records start_state_def)
  note B = delivery_failure_isolation [OF uc lm pass absentB,
      where l = sample_lib and cfg = live and net = refusing_once
        and w = "env after_delivery" and rest = "[]" and d = NoFile and prior = Map.empty
        and before = "[Some ?A]" and ks = "[''r3'']" and env_io = sound_io]
  from B accepted_second two_reviews_loop(1,2) load ks undisturbed_sound_io
  have b: "existingReviews after_delivery (ReviewId ?B)
        = Some ((newReview_of sample_lib ?B (?uc 2 ''slow'') \<lparr>Seconds = 0\<rparr>)\<lparr>Notified := True\<rparr>)
      \<and> (\<exists>w' pre post.
            main_run sample_lib live refusing_once sound_io [''r3''] None NoFile
              (Inr ([Some ?A] @ Some ?B # []))
              = (Completed (after_delivery\<lparr>env := w'\<rparr>),
                 disk_of sample_lib (encoding sample_lib
                   (allReviews_of [''r3''] (existingReviews after_delivery))))
          \<and> encoding sample_lib (allReviews_of [''r3''] (existingReviews after_delivery))
              = pre @ csv_line sample_lib (record_of sample_lib
                  ((newReview_of sample_lib ?B (?uc 2 ''slow'') \<lparr>Seconds = 0\<rparr>)
                     \<lparr>Notified := True\<rparr>)) @ post
          \<and> record_of sample_lib
               ((newReview_of sample_lib ?B (?uc 2 ''slow'') \<lparr>Seconds = 0\<rparr>)
                  \<lparr>Notified := True\<rparr>) ! 6 = ''true'')"
    unfolding sample_records by blast
  then have run: "\<exists>w'. main_run sample_lib live refusing_once sound_io [''r3''] None NoFile
          (Inr ([Some ?A] @ Some ?B # []))
         = (Completed (after_delivery\<lparr>env := w'\<rparr>),
            Rows [header, record_of sample_lib (sample_other\<lparr>Notified := True\<rparr>)])"
    and flag: "record_of sample_lib (sample_other\<lparr>Notified := True\<rparr>) ! 6 = ''true''"
    and stored: "existingReviews after_delivery ''r3'' = Some (sample_other\<lparr>Notified := True\<rparr>)"
    unfolding sample_records two_reviews_rows two_reviews_file id by blast+
  have gone: "existingReviews after_delivery ''r1'' = None"
    by (simp add: after_delivery_def)
  from refused_first stepA a accepted_second two_reviews_loop(2) stored gone load
    undisturbed_sound_io run flag
  show ?thesis by simp
qed

section \<open>Monotonic notified flag\<close>

text \<open>
  In a keyed state set the records written for an id are the one stored under it, so a
  load of the rows of a state set that holds an id as notified holds it as notified.
\<close>

lemma allReviews_of_keyed:
  assumes "keyed m" and "m k = Some e" and "Notified e"
  shows "\<forall>x \<in> set (allReviews_of ks m). ReviewID x = k \<longrightarrow> Notified x"
proof (intro ballI impI)
  fix x assume x: "x \<in> set (allReviews_of ks m)" and k: "ReviewID x = k"
  from x obtain k' where "m k' = Some x" by (auto simp: set_allReviews_of)
  with assms(1) k have "m k = Some x" by (auto simp: keyed_def)
  with assms(2,3) show "Notified x" by simp
qed

lemma reload_notified:
  assumes "keyed m" and "m k = Some e" and "Notified e" and "k \<in> set ks"
  shows "\<exists>m1 e1. readExistingReviews l (Rows (header # map (record_of l) (allReviews_of ks m)))
                    = Inr m1
           \<and> m1 k = Some e1 \<and> Notified e1"
proof -
  let ?all = "allReviews_of ks m"
  from assms(1,2,4) have "\<exists>x \<in> set ?all. ReviewID x = k"
    by (auto simp: set_allReviews_of keyed_def)
  with read_records_saved [where l = l and m = Map.empty,
      OF allReviews_of_keyed [where ks = ks, OF assms(1,2,3)]]
  obtain m' where "read_records l Map.empty (map (record_of l) ?all) = Inr m'"
    and "\<exists>e. m' k = Some e \<and> Notified e"
    by auto
  with readExistingReviews_saved [of l ?all] show ?thesis by simp
qed

text \<open>The long state file on the disk whose final flush fails.\<close>

lemma long_file_load:
  "readExistingReviews sample_lib (Rows [header, long_row]) = Inr [''r2'' \<mapsto> long_stored]"
  "readExistingReviews sample_lib (Rows [header, cut_row])
     = Inr [''r2'' \<mapsto> long_stored\<lparr>Notified := False\<rparr>]"
  by (simp_all add: readExistingReviews_def read_record_def header_def long_row_def
      cut_row_def sample_lib_def long_stored_def ParseBool_def)

lemma long_file_save:
  "saveReviews sample_lib lost_flush [long_stored] d = (Inr (), Rows [header, cut_row])"
proof -
  let ?h = "csv_line sample_lib header"
  let ?r = "csv_line sample_lib (record_of sample_lib long_stored)"
  have sp: "spill lost_flush n = Written buffer_size" for n
    by (simp add: lost_flush_def)
  have h: "writer_Write (Written buffer_size) \<lparr>written = [], pending = []\<rparr> ?h
      = (Inr (), \<lparr>written = [], pending = ?h\<rparr>)"
    by (simp add: writer_Write_def length_header_line buffer_size_def)
  have r: "writer_Write (Written buffer_size) \<lparr>written = [], pending = ?h\<rparr> ?r
      = (Inr (), \<lparr>written = take buffer_size (?h @ ?r), pending = drop buffer_size (?h @ ?r)\<rparr>)"
    by (simp add: writer_Write_def length_header_line length_long_line)
      (simp add: buffer_size_def)
  have "write_file sample_lib lost_flush [long_stored] = (Inr (), take buffer_size (?h @ ?r))"
    by (simp add: write_file_def sp h r writer_Flush_def) (simp add: lost_flush_def)
  moreover have "csv_parse sample_lib = sample_parse"
    by (simp add: sample_lib_def)
  then have "disk_of sample_lib (take buffer_size (?h @ ?r)) = Rows [header, cut_row]"
    by (simp only: long_file_cut disk_of_def parse_cut cut_row_def option.case)
  ultimately show ?thesis
    by (simp add: saveReviews_def) (simp add: lost_flush_def)
qed

text \<open>
  A run that loads the long record as notified and fetches nothing, on the disk where
  the full buffer is written out and the final flush fails: the run completes, the file
  ends inside the last field of the record's row, and the next load holds the record as
  not notified.
\<close>

theorem cut_row_reverts_flag:
  "readExistingReviews sample_lib (Rows [header, long_row]) = Inr [''r2'' \<mapsto> long_stored]
   \<and> main_run sample_lib dry_run accepting lost_flush [''r2''] None (Rows [header, long_row])
       (Inr [])
     = (Completed \<lparr>existingReviews = [''r2'' \<mapsto> long_stored], newReviews = [],
                   env = \<lparr>trace = [LogNoNewReviews], posts = 0\<rparr>\<rparr>,
        Rows [header, cut_row])
   \<and> readExistingReviews sample_lib (Rows [header, cut_row])
     = Inr [''r2'' \<mapsto> long_stored\<lparr>Notified := False\<rparr>]"
proof -
  have "allReviews_of [''r2''] [''r2'' \<mapsto> long_stored] = [long_stored]"
    by (simp add: allReviews_of_def)
  then have "main_run sample_lib dry_run accepting lost_flush [''r2''] None
       (Rows [header, long_row]) (Inr [])
     = (Completed \<lparr>existingReviews = [''r2'' \<mapsto> long_stored], newReviews = [],
                   env = \<lparr>trace = [LogNoNewReviews], posts = 0\<rparr>\<rparr>,
        Rows [header, cut_row])"
    by (simp add: main_run_def long_file_load(1) start_state_def long_file_save
        log_results_def)
  with long_file_load show ?thesis by simp
qed

text \<open>
  C4, as the code has it. Let a run load a state set that holds the id \<open>k\<close> as notified.
  Then every state of the review loop holds the same record under \<open>k\<close>. A run that
  cannot create the state file leaves it as it was. When the loop completes, the run
  meets no failure on the state file, the range over the map meets \<open>k\<close> and the CSV
  reader finds in the written bytes the rows that were written, then the run completes
  and the next load succeeds and holds \<open>k\<close> as notified.
\<close>

theorem notified_monotonic:
  assumes "readExistingReviews l d = Inr prior" and "prior k = Some e" and "Notified e"
  shows "(\<forall>stN. process_reviews l cfg net ratingRange (start_state prior) rs = Inr stN
            \<longrightarrow> existingReviews stN k = Some e)
       \<and> (\<forall>out d'. main_run l cfg net env_io ks ratingRange d fetched = (out, d')
              \<and> \<not> create_ok env_io
            \<longrightarrow> d' = d)
       \<and> (\<forall>stN. process_reviews l cfg net ratingRange (start_state prior) rs = Inr stN
              \<and> undisturbed env_io \<and> k \<in> set ks
              \<and> csv_parse l (encoding l (allReviews_of ks (existingReviews stN)))
                  = Some (header # map (record_of l) (allReviews_of ks (existingReviews stN)))
            \<longrightarrow> (\<exists>w m e'.
                   main_run l cfg net env_io ks ratingRange d (Inr rs)
                     = (Completed (stN\<lparr>env := w\<rparr>),
                        Rows (header # map (record_of l)
                                (allReviews_of ks (existingReviews stN))))
                 \<and> readExistingReviews l
                      (Rows (header # map (record_of l)
                               (allReviews_of ks (existingReviews stN)))) = Inr m
                 \<and> m k = Some e' \<and> Notified e'))"
proof (intro conjI allI impI)
  fix stN
  assume "process_reviews l cfg net ratingRange (start_state prior) rs = Inr stN"
  from process_reviews_notified_kept [OF this, of k e] assms(2,3)
  show "existingReviews stN k = Some e" by (simp add: start_state_def)
next
  fix out d'
  assume "main_run l cfg net env_io ks ratingRange d fetched = (out, d')
          \<and> \<not> create_ok env_io"
  then have run: "main_run l cfg net env_io ks ratingRange d fetched = (out, d')"
    and nc: "\<not> create_ok env_io"
    by simp_all
  from run show "d' = d"
  proof (cases rule: main_run_cases)
    case untouched
    then show ?thesis by simp
  next
    case (saved loaded reviews stL res)
    from saveReviews_create_fails [OF nc] saved(4) show ?thesis by simp
  qed
next
  fix stN
  assume h: "process_reviews l cfg net ratingRange (start_state prior) rs = Inr stN
              \<and> undisturbed env_io \<and> k \<in> set ks
              \<and> csv_parse l (encoding l (allReviews_of ks (existingReviews stN)))
                  = Some (header # map (record_of l) (allReviews_of ks (existingReviews stN)))"
  let ?all = "allReviews_of ks (existingReviews stN)"
  from h have loop: "process_reviews l cfg net ratingRange (start_state prior) rs = Inr stN"
    and io: "undisturbed env_io" and ks: "k \<in> set ks"
    and codec: "csv_parse l (encoding l ?all) = Some (header # map (record_of l) ?all)"
    by simp_all
  from process_reviews_notified_kept [OF loop, of k e] assms(2,3)
  have kN: "existingReviews stN k = Some e" by (simp add: start_state_def)
  from readExistingReviews_keyed [OF assms(1)]
  have "keyed (existingReviews (start_state prior))" by (simp add: start_state_def)
  from process_reviews_keyed [OF loop this] have keyed: "keyed (existingReviews stN)" .
  from main_run_undisturbed [OF assms(1) loop io, of ks] obtain w where
    "main_run l cfg net env_io ks ratingRange d (Inr rs)
       = (Completed (stN\<lparr>env := w\<rparr>), disk_of l (encoding l ?all))"
    by blast
  with codec have run: "main_run l cfg net env_io ks ratingRange d (Inr rs)
       = (Completed (stN\<lparr>env := w\<rparr>), Rows (header # map (record_of l) ?all))"
    by (simp add: disk_of_def)
  from reload_notified [OF keyed kN assms(3) ks, of l] obtain m e' where
    "readExistingReviews l (Rows (header # map (record_of l) ?all)) = Inr m"
    "m k = Some e'" "Notified e'"
    by blast
  with run show "\<exists>w m e'.
                   main_run l cfg net env_io ks ratingRange d (Inr rs)
                     = (Completed (stN\<lparr>env := w\<rparr>),
                        Rows (header # map (record_of l) ?all))
                 \<and> readExistingReviews l (Rows (header # map (record_of l) ?all)) = Inr m
                 \<and> m k = Some e' \<and> Notified e'"
    by blast
qed


text \<open>A dry run that starts from one stored record and delivers one fetched review.\<close>

lemma sample_load:
  "readExistingReviews sample_lib (Rows [header, sample_row]) = Inr [''r2'' \<mapsto> sample_stored]"
  by (simp add: readExistingReviews_def read_record_def header_def sample_row_def
      sample_lib_def sample_stored_def ParseBool_def)

lemma dry_run_loop:
  "process_reviews sample_lib dry_run accepting None (start_state [''r2'' \<mapsto> sample_stored])
     [Some (api_review ''r1'' 5 ''great!'')] = Inr after_dry_run"
  by (simp add: process_review_def userComment_def api_review_def filtered_out_def
      not_yet_notified_def start_state_def sendToWebhook_def Repeat_star_def
      newReview_of_def dry_run_def sample_new_def cleanText_def sample_lib_def
      is_space_def after_dry_run_def Let_def)

lemma dry_run_rows:
  "allReviews_of [''r2'', ''r1''] (existingReviews after_dry_run)
     = [sample_stored, sample_new\<lparr>Notified := True\<rparr>]"
  by (simp add: allReviews_of_def after_dry_run_def)

lemma dry_run_codec:
  "csv_parse sample_lib (encoding sample_lib [sample_stored, sample_new\<lparr>Notified := True\<rparr>])
     = Some (header # map (record_of sample_lib) [sample_stored, sample_new\<lparr>Notified := True\<rparr>])"
proof -
  have "encoding sample_lib [sample_stored, sample_new\<lparr>Notified := True\<rparr>]
      = ''Review ID,Rating,Review Text,Author,Device,Date,Notified\<newline>''
        @ ''r2,2,slow,Ann,Pixel,1970-01-01T00:00:00Z,true\<newline>''
        @ ''r1,5,great!,Bob,Unknown,1970-01-01T00:00:00Z,true\<newline>''"
    by (simp add: encoding_def header_line)
      (simp add: sample_lib_def record_of_def sample_stored_def sample_new_def FormatBool_def)
  moreover have "sample_parse (''Review ID,Rating,Review Text,Author,Device,Date,Notified\<newline>''
        @ ''r2,2,slow,Ann,Pixel,1970-01-01T00:00:00Z,true\<newline>''
        @ ''r1,5,great!,Bob,Unknown,1970-01-01T00:00:00Z,true\<newline>'')
      = Some [header,
              [''r2'', ''2'', ''slow'', ''Ann'', ''Pixel'', ''1970-01-01T00:00:00Z'', ''true''],
              [''r1'', ''5'', ''great!'', ''Bob'', ''Unknown'', ''1970-01-01T00:00:00Z'',
               ''true'']]"
    by (simp add: sample_parse_def header_def)
  moreover have "map (record_of sample_lib) [sample_stored, sample_new\<lparr>Notified := True\<rparr>]
      = [[''r2'', ''2'', ''slow'', ''Ann'', ''Pixel'', ''1970-01-01T00:00:00Z'', ''true''],
         [''r1'', ''5'', ''great!'', ''Bob'', ''Unknown'', ''1970-01-01T00:00:00Z'',
          ''true'']]"
    by (simp add: sample_lib_def record_of_def sample_stored_def sample_new_def
        FormatBool_def)
  moreover have "csv_parse sample_lib = sample_parse"
    by (simp add: sample_lib_def)
  ultimately show ?thesis by (simp only:)
qed

lemma locked_dir_run:
  "main_run sample_lib dry_run accepting locked_dir [''r2'', ''r1''] None
     (Rows [header, sample_row]) (Inr [Some (api_review ''r1'' 5 ''great!'')])
   = (Fatal ''Failed to save reviews: failed to create CSV file'', Rows [header, sample_row])"
  by (simp add: main_run_def sample_load dry_run_loop saveReviews_def locked_dir_def
      del: process_reviews.simps)

theorem notified_monotonic_witness:
  "readExistingReviews sample_lib (Rows [header, sample_row]) = Inr [''r2'' \<mapsto> sample_stored]
   \<and> [''r2'' \<mapsto> sample_stored] ''r2'' = Some sample_stored
   \<and> Notified sample_stored
   \<and> process_reviews sample_lib dry_run accepting None
        (start_state [''r2'' \<mapsto> sample_stored]) [Some (api_review ''r1'' 5 ''great!'')]
       = Inr after_dry_run
   \<and> existingReviews after_dry_run ''r2'' = Some sample_stored
   \<and> undisturbed sound_io
   \<and> ''r2'' \<in> set [''r2'', ''r1'']
   \<and> (\<exists>w m e'.
         main_run sample_lib dry_run accepting sound_io [''r2'', ''r1''] None
           (Rows [header, sample_row]) (Inr [Some (api_review ''r1'' 5 ''great!'')])
           = (Completed (after_dry_run\<lparr>env := w\<rparr>),
              Rows (header # map (record_of sample_lib)
                      [sample_stored, sample_new\<lparr>Notified := True\<rparr>]))
       \<and> readExistingReviews sample_lib
            (Rows (header # map (record_of sample_lib)
                     [sample_stored, sample_new\<lparr>Notified := True\<rparr>])) = Inr m
       \<and> m ''r2'' = Some e' \<and> Notified e')
   \<and> \<not> create_ok locked_dir
   \<and> main_run sample_lib dry_run accepting locked_dir [''r2'', ''r1''] None
       (Rows [header, sample_row]) (Inr [Some (api_review ''r1'' 5 ''great!'')])
     = (Fatal ''Failed to save reviews: failed to create CSV file'', Rows [header, sample_row])"
proof -
  have nc: "\<not> create_ok locked_dir" by (simp add: locked_dir_def)
  have k: "[''r2'' \<mapsto> sample_stored] ''r2'' = Some sample_stored" "Notified sample_stored"
    by (simp_all add: sample_stored_def)
  have ks: "''r2'' \<in> set [''r2'', ''r1'']" by simp
  note T = notified_monotonic [OF sample_load k, where cfg = dry_run and net = accepting
      and ratingRange = None and rs = "[Some (api_review ''r1'' 5 ''great!'')]"
      and env_io = sound_io and ks = "[''r2'', ''r1'']"]
  from T dry_run_loop have a: "existingReviews after_dry_run ''r2'' = Some sample_stored"
    by blast
  from T have "process_reviews sample_lib dry_run accepting None
             (start_state [''r2'' \<mapsto> sample_stored])
             [Some (api_review ''r1'' 5 ''great!'')] = Inr after_dry_run
      \<and> undisturbed sound_io \<and> ''r2'' \<in> set [''r2'', ''r1'']
      \<and> csv_parse sample_lib
           (encoding sample_lib (allReviews_of [''r2'', ''r1''] (existingReviews after_dry_run)))
         = Some (header # map (record_of sample_lib)
                   (allReviews_of [''r2'', ''r1''] (existingReviews after_dry_run)))
      \<longrightarrow> (\<exists>w m e'.
         main_run sample_lib dry_run accepting sound_io [''r2'', ''r1''] None
           (Rows [header, sample_row]) (Inr [Some (api_review ''r1'' 5 ''great!'')])
           = (Completed (after_dry_run\<lparr>env := w\<rparr>),
              Rows (header # map (record_of sample_lib)
                      (allReviews_of [''r2'', ''r1''] (existingReviews after_dry_run))))
       \<and> readExistingReviews sample_lib
            (Rows (header # map (record_of sample_lib)
                     (allReviews_of [''r2'', ''r1''] (existingReviews after_dry_run)))) = Inr m
       \<and> m ''r2'' = Some e' \<and> Notified e')"
    by blast
  with dry_run_loop undisturbed_sound_io ks dry_run_codec
  have b: "\<exists>w m e'.
         main_run sample_lib dry_run accepting sound_io [''r2'', ''r1''] None
           (Rows [header, sample_row]) (Inr [Some (api_review ''r1'' 5 ''great!'')])
           = (Completed (after_dry_run\<lparr>env := w\<rparr>),
              Rows (header # map (record_of sample_lib)
                      [sample_stored, sample_new\<lparr>Notified := True\<rparr>]))
       \<and> readExistingReviews sample_lib
            (Rows (header # map (record_of sample_lib)
                     [sample_stored, sample_new\<lparr>Notified := True\<rparr>])) = Inr m
       \<and> m ''r2'' = Some e' \<and> Notified e'"
    unfolding dry_run_rows by blast
  from sample_load k dry_run_loop a undisturbed_sound_io ks b nc locked_dir_run
  show ?thesis by blast
qed

section \<open>Idempotence\<close>

text \<open>
  After a loop whose log holds no failed delivery, every fetched review is well-formed
  and is either rejected by the filter or stored as notified.
\<close>

lemma process_reviews_all_delivered:
  assumes "process_reviews l cfg net ratingRange st rs = Inr st'"
    and "\<And>rid err. LogSendFailed rid err \<notin> set (trace (env st'))"
  shows "\<forall>r \<in> set rs. \<exists>review uc. r = Some review \<and> userComment review = Inr uc
           \<and> (filtered_out ratingRange (StarRating uc)
                \<or> (\<exists>e. existingReviews st' (ReviewId review) = Some e \<and> Notified e))"
  using assms
proof (induction rs arbitrary: st)
  case Nil
  then show ?case by simp
next
  case (Cons r rs)
  from Cons.prems(1) obtain st1 where
    s1: "process_review l cfg net ratingRange st r = Inr st1"
    and s2: "process_reviews l cfg net ratingRange st1 rs = Inr st'"
    by (auto split: sum.splits)
  note kept = process_reviews_notified_kept [OF s2]
  from process_reviews_grows [OF s2] obtain evs where
    tr: "trace (env st') = trace (env st1) @ evs"
    by blast
  have "\<exists>review uc. r = Some review \<and> userComment review = Inr uc
           \<and> (filtered_out ratingRange (StarRating uc)
                \<or> (\<exists>e. existingReviews st' (ReviewId review) = Some e \<and> Notified e))"
    using s1
  proof (cases rule: process_review_Inr)
    case (skipped review uc)
    show ?thesis
    proof (cases "filtered_out ratingRange (StarRating uc)")
      case True
      with skipped show ?thesis by blast
    next
      case False
      with skipped(3) obtain e where
        e: "existingReviews st (ReviewId review) = Some e" "Notified e"
        by (auto simp: not_yet_notified_def split: option.splits)
      with skipped(4) have "existingReviews st1 (ReviewId review) = Some e" by simp
      from kept [OF this e(2)] skipped(1,2) e(2) show ?thesis by blast
    qed
  next
    case (failed review uc ts err w)
    then have "LogSendFailed (ReviewId review) err \<in> set (trace (env st1))" by simp
    with tr Cons.prems(2) show ?thesis by simp
  next
    case (delivered review uc ts w)
    then have "existingReviews st1 (ReviewId review)
        = Some ((newReview_of l review uc ts)\<lparr>Notified := True\<rparr>)"
      by simp
    from kept [OF this] delivered(1,2) show ?thesis by auto
  qed
  with Cons.IH [OF s2 Cons.prems(2)] show ?case by simp
qed

lemma process_reviews_nothing_to_do:
  assumes "\<forall>r \<in> set rs. \<exists>review uc. r = Some review \<and> userComment review = Inr uc
           \<and> (filtered_out ratingRange (StarRating uc)
                \<or> (\<exists>e. existingReviews st (ReviewId review) = Some e \<and> Notified e))"
  shows "process_reviews l cfg net ratingRange st rs = Inr st"
  using assms
proof (induction rs)
  case Nil
  then show ?case by simp
next
  case (Cons r rs)
  then obtain review uc where r: "r = Some review" "userComment review = Inr uc"
    and c: "filtered_out ratingRange (StarRating uc)
            \<or> (\<exists>e. existingReviews st (ReviewId review) = Some e \<and> Notified e)"
    by auto
  from r c have "process_review l cfg net ratingRange st r = Inr st"
    by (auto simp: process_review_def not_yet_notified_def)
  with Cons show ?case by simp
qed

text \<open>
  C5. Let a first run go through the fetched list and complete the loop with no failed
  delivery in its log. A second loop over the same list, under the same filter, that
  starts from a state set holding as notified every id that the first run's final state
  set holds as notified (that state set itself, or what is loaded from its saved file)
  ends in the state it started in: no delivery is attempted, no event happens, and the
  list of new reviews is empty.
\<close>

theorem second_run_idempotent:
  assumes "process_reviews l cfg net ratingRange (start_state m0) fetched = Inr st1"
    and "\<forall>rid err. LogSendFailed rid err \<notin> set (trace (env st1))"
    and "\<forall>k e. existingReviews st1 k = Some e \<and> Notified e
           \<longrightarrow> (\<exists>e'. m2 k = Some e' \<and> Notified e')"
  shows "process_reviews l cfg' net' ratingRange (start_state m2) fetched
           = Inr \<lparr>existingReviews = m2, newReviews = [], env = \<lparr>trace = [], posts = 0\<rparr>\<rparr>"
proof -
  from assms(2) have "\<And>rid err. LogSendFailed rid err \<notin> set (trace (env st1))"
    by blast
  from process_reviews_all_delivered [OF assms(1) this] assms(3)
  have "\<forall>r \<in> set fetched. \<exists>review uc. r = Some review \<and> userComment review = Inr uc
           \<and> (filtered_out ratingRange (StarRating uc)
                \<or> (\<exists>e. existingReviews (start_state m2) (ReviewId review) = Some e
                      \<and> Notified e))"
    by (fastforce simp: start_state_def)
  from process_reviews_nothing_to_do [OF this] show ?thesis
    by (simp add: start_state_def)
qed


theorem second_run_idempotent_witness:
  "\<exists>st1. process_reviews sample_lib dry_run (\<lambda>n. Status 200) None
            (start_state [''r2'' \<mapsto> sample_stored])
            [Some (api_review ''r1'' 5 '' great! ''), Some (api_review ''r2'' 5 ''better'')]
          = Inr st1
      \<and> (\<forall>rid err. LogSendFailed rid err \<notin> set (trace (env st1)))
      \<and> length (newReviews st1) = 1
      \<and> process_reviews sample_lib live (\<lambda>n. Status 500) None
            (start_state (existingReviews st1))
            [Some (api_review ''r1'' 5 '' great! ''), Some (api_review ''r2'' 5 ''better'')]
          = Inr \<lparr>existingReviews = existingReviews st1, newReviews = [],
                 env = \<lparr>trace = [], posts = 0\<rparr>\<rparr>"
proof -
  let ?rs = "[Some (api_review ''r1'' 5 '' great! ''), Some (api_review ''r2'' 5 ''better'')]"
  have "\<exists>st1. process_reviews sample_lib dry_run (\<lambda>n. Status 200) None
            (start_state [''r2'' \<mapsto> sample_stored]) ?rs = Inr st1
      \<and> (\<forall>rid err. LogSendFailed rid err \<notin> set (trace (env st1)))
      \<and> length (newReviews st1) = 1"
    by (simp add: process_review_def userComment_def api_review_def filtered_out_def
        not_yet_notified_def start_state_def sendToWebhook_def Repeat_star_def
        newReview_of_def dry_run_def sample_stored_def Let_def)
  then obtain st1 where run1: "process_reviews sample_lib dry_run (\<lambda>n. Status 200) None
            (start_state [''r2'' \<mapsto> sample_stored]) ?rs = Inr st1"
    and ok: "\<forall>rid err. LogSendFailed rid err \<notin> set (trace (env st1))"
    and new: "length (newReviews st1) = 1"
    by blast
  have same: "\<forall>k e. existingReviews st1 k = Some e \<and> Notified e
           \<longrightarrow> (\<exists>e'. existingReviews st1 k = Some e' \<and> Notified e')"
    by blast
  from second_run_idempotent [OF run1 ok same, of live "\<lambda>n. Status 500"] run1 ok new
  show ?thesis by blast
qed

section \<open>Retention\<close>

text \<open>
  The state set after the loop is the one before it, overridden by the records delivered
  in between, the later delivery winning.
\<close>

lemma process_review_union:
  assumes "process_review l cfg net ratingRange st r = Inr st'"
  shows "\<exists>added. newReviews st' = newReviews st @ added
           \<and> existingReviews st'
               = existingReviews st ++ map_of (rev (map (\<lambda>b. (ReviewID b, b)) added))"
  using assms
proof (cases rule: process_review_Inr)
  case (delivered review uc ts w)
  let ?b = "(newReview_of l review uc ts)\<lparr>Notified := True\<rparr>"
  have "ReviewID ?b = ReviewId review" by (simp add: newReview_of_def)
  with delivered(7) have "newReviews st' = newReviews st @ [?b]
      \<and> existingReviews st'
          = existingReviews st ++ map_of (rev (map (\<lambda>b. (ReviewID b, b)) [?b]))"
    by simp
  then show ?thesis by blast
qed auto

lemma process_reviews_union:
  assumes "process_reviews l cfg net ratingRange st rs = Inr st'"
  shows "\<exists>added. newReviews st' = newReviews st @ added
           \<and> existingReviews st'
               = existingReviews st ++ map_of (rev (map (\<lambda>b. (ReviewID b, b)) added))"
  using assms
proof (induction rs arbitrary: st)
  case Nil
  then show ?case by simp
next
  case (Cons r rs)
  from Cons.prems obtain st1 where
    s1: "process_review l cfg net ratingRange st r = Inr st1"
    and s2: "process_reviews l cfg net ratingRange st1 rs = Inr st'"
    by (auto split: sum.splits)
  from process_review_union [OF s1] obtain a1 where
    a1: "newReviews st1 = newReviews st @ a1"
    "existingReviews st1
       = existingReviews st ++ map_of (rev (map (\<lambda>b. (ReviewID b, b)) a1))"
    by blast
  from Cons.IH [OF s2] obtain a2 where
    a2: "newReviews st' = newReviews st1 @ a2"
    "existingReviews st'
       = existingReviews st1 ++ map_of (rev (map (\<lambda>b. (ReviewID b, b)) a2))"
    by blast
  from a1 a2 have "newReviews st' = newReviews st @ (a1 @ a2)
      \<and> existingReviews st'
          = existingReviews st ++ map_of (rev (map (\<lambda>b. (ReviewID b, b)) (a1 @ a2)))"
    by simp
  then show ?case by blast
qed

lemma process_reviews_dom:
  assumes "process_reviews l cfg net ratingRange st rs = Inr st'"
  shows "dom (existingReviews st) \<subseteq> dom (existingReviews st')"
proof -
  from process_reviews_union [OF assms] obtain added where
    "existingReviews st'
       = existingReviews st ++ map_of (rev (map (\<lambda>b. (ReviewID b, b)) added))"
    by blast
  then have "dom (existingReviews st')
      = dom (map_of (rev (map (\<lambda>b. (ReviewID b, b)) added))) \<union> dom (existingReviews st)"
    by simp
  then show ?thesis by blast
qed

text \<open>
  Reading back rows that \<^verbatim>\<open>saveReviews\<close> wrote, when every written record with the id \<open>k\<close>
  is \<open>e\<close> and the rating and the date of \<open>e\<close> are read back as they were formatted: the map
  read holds \<open>e\<close> under \<open>k\<close> if it did so before, and as soon as one such record was
  written.
\<close>

lemma read_records_exact:
  assumes "\<forall>x \<in> set reviews. ReviewID x = k \<longrightarrow> x = e"
    and "Atoi l (Itoa l (Rating e)) = Rating e"
    and "ParseRFC3339 l (FormatRFC3339 l (Date e)) = Date e"
  shows "\<exists>m'. read_records l m (map (record_of l) reviews) = Inr m'
           \<and> (m k = Some e \<longrightarrow> m' k = Some e)
           \<and> ((\<exists>x \<in> set reviews. ReviewID x = k) \<longrightarrow> m' k = Some e)"
  using assms(1)
proof (induction reviews arbitrary: m)
  case Nil
  then show ?case by simp
next
  case (Cons x xs)
  define m1 where "m1 = m(ReviewID x \<mapsto>
      \<lparr>ReviewID = ReviewID x, Rating = Atoi l (Itoa l (Rating x)), Text = Text x,
       Author = Author x, Device = Device x,
       Date = ParseRFC3339 l (FormatRFC3339 l (Date x)), Notified = Notified x\<rparr>)"
  have step: "read_record l m (record_of l x) = Inr m1"
    by (simp add: read_record_def record_of_def m1_def ParseBool_FormatBool)
  from Cons.prems have xs: "\<forall>y \<in> set xs. ReviewID y = k \<longrightarrow> y = e"
    and x: "ReviewID x = k \<Longrightarrow> x = e"
    by auto
  from Cons.IH [OF xs, of m1] obtain m' where
    r: "read_records l m1 (map (record_of l) xs) = Inr m'"
    and a: "m1 k = Some e \<Longrightarrow> m' k = Some e"
    and b: "\<exists>y \<in> set xs. ReviewID y = k \<Longrightarrow> m' k = Some e"
    by blast
  have hit: "m1 k = Some e" if "ReviewID x = k"
    using that x [OF that] assms(2,3) by (simp add: m1_def)
  have miss: "m1 k = m k" if "ReviewID x \<noteq> k"
    using that by (simp add: m1_def)
  have "read_records l m (map (record_of l) (x # xs)) = Inr m'"
    using step r by simp
  moreover have "m' k = Some e" if "m k = Some e"
    using that a hit miss by (cases "ReviewID x = k") auto
  moreover have "m' k = Some e" if "\<exists>y \<in> set (x # xs). ReviewID y = k"
    using that a b hit by (cases "ReviewID x = k") auto
  ultimately show ?case by blast
qed

lemma reload_exact:
  assumes "keyed m" and "m k = Some e" and "k \<in> set ks"
    and "Atoi l (Itoa l (Rating e)) = Rating e"
    and "ParseRFC3339 l (FormatRFC3339 l (Date e)) = Date e"
  shows "\<exists>m'. readExistingReviews l (Rows (header # map (record_of l) (allReviews_of ks m)))
                 = Inr m'
           \<and> m' k = Some e"
proof -
  let ?all = "allReviews_of ks m"
  have one: "\<forall>x \<in> set ?all. ReviewID x = k \<longrightarrow> x = e"
  proof (intro ballI impI)
    fix x assume x: "x \<in> set ?all" and k: "ReviewID x = k"
    from x obtain k' where "m k' = Some x" by (auto simp: set_allReviews_of)
    with assms(1) k have "m k = Some x" by (auto simp: keyed_def)
    with assms(2) show "x = e" by simp
  qed
  from assms(1,2,3) have "\<exists>x \<in> set ?all. ReviewID x = k"
    by (auto simp: set_allReviews_of keyed_def)
  with read_records_exact [where l = l and m = Map.empty, OF one assms(4,5)]
  obtain m' where "read_records l Map.empty (map (record_of l) ?all) = Inr m'"
    and "m' k = Some e"
    by auto
  with readExistingReviews_saved [of l ?all] show ?thesis by simp
qed

text \<open>
  A dry run that loads one stored record and fetches nothing, on the disk where the final
  flush fails: the run completes, the state file holds nothing, and the next load of it
  panics.
\<close>

theorem completed_run_drops_prior:
  "readExistingReviews sample_lib (Rows [header, sample_row]) = Inr [''r2'' \<mapsto> sample_stored]
   \<and> main_run sample_lib dry_run accepting lost_flush [''r2''] None (Rows [header, sample_row])
       (Inr [])
     = (Completed \<lparr>existingReviews = [''r2'' \<mapsto> sample_stored], newReviews = [],
                   env = \<lparr>trace = [LogNoNewReviews], posts = 0\<rparr>\<rparr>,
        Rows [])
   \<and> readExistingReviews sample_lib (Rows []) = Inl Panic"
proof -
  have "length (encoding sample_lib [sample_stored]) \<le> buffer_size"
    by (simp add: encoding_def header_line buffer_size_def)
      (simp add: sample_lib_def record_of_def sample_stored_def FormatBool_def)
  from saveReviews_fits [OF _ this, of lost_flush "Rows [header, sample_row]"]
  have "saveReviews sample_lib lost_flush [sample_stored] (Rows [header, sample_row])
      = (Inr (), Rows [])"
    by (simp add: lost_flush_def disk_of_def) (simp add: sample_lib_def parse_empty)
  moreover have "allReviews_of [''r2''] [''r2'' \<mapsto> sample_stored] = [sample_stored]"
    by (simp add: allReviews_of_def)
  ultimately have "main_run sample_lib dry_run accepting lost_flush [''r2''] None
       (Rows [header, sample_row]) (Inr [])
     = (Completed \<lparr>existingReviews = [''r2'' \<mapsto> sample_stored], newReviews = [],
                   env = \<lparr>trace = [LogNoNewReviews], posts = 0\<rparr>\<rparr>,
        Rows [])"
    by (simp add: main_run_def sample_load start_state_def log_results_def)
  moreover have "readExistingReviews sample_lib (Rows []) = Inl Panic"
    by (simp add: readExistingReviews_def)
  ultimately show ?thesis using sample_load by simp
qed

text \<open>
  C6, as the code has it. After a loop that starts from the loaded state set \<open>m0\<close>: every
  id that does not occur in the fetched list has the entry it had; every key of \<open>m0\<close> is
  still a key; the final state set is \<open>m0\<close> overridden by the records delivered in this
  run (those updated and those newly inserted), and by nothing else. Let \<open>m0\<close> be what the
  run loaded and hold \<open>e\<close> under an id \<open>k\<close> that was not fetched. When the run meets no
  failure on the state file and the range over the map meets \<open>k\<close>, the run completes and
  the file holds the bytes of the final state set, among them the line of \<open>e\<close>. When
  moreover the CSV reader finds in those bytes the rows that were written and the rating
  and the date of \<open>e\<close> are read back as they were formatted, the next load succeeds and
  holds \<open>e\<close> under \<open>k\<close>.
\<close>

theorem prior_state_retained:
  assumes "process_reviews l cfg net ratingRange (start_state m0) fetched = Inr stN"
  shows "(\<forall>k. k \<notin> set (fetched_ids fetched) \<longrightarrow> existingReviews stN k = m0 k)
       \<and> dom m0 \<subseteq> dom (existingReviews stN)
       \<and> existingReviews stN
           = m0 ++ map_of (rev (map (\<lambda>b. (ReviewID b, b)) (newReviews stN)))
       \<and> (\<forall>k e ks env_io d.
             readExistingReviews l d = Inr m0 \<and> m0 k = Some e
               \<and> k \<notin> set (fetched_ids fetched) \<and> k \<in> set ks \<and> undisturbed env_io
             \<longrightarrow> (\<exists>w pre post.
                    main_run l cfg net env_io ks ratingRange d (Inr fetched)
                      = (Completed (stN\<lparr>env := w\<rparr>),
                         disk_of l (encoding l (allReviews_of ks (existingReviews stN))))
                  \<and> encoding l (allReviews_of ks (existingReviews stN))
                      = pre @ csv_line l (record_of l e) @ post))
       \<and> (\<forall>k e ks env_io d.
             readExistingReviews l d = Inr m0 \<and> m0 k = Some e
               \<and> k \<notin> set (fetched_ids fetched) \<and> k \<in> set ks \<and> undisturbed env_io
               \<and> csv_parse l (encoding l (allReviews_of ks (existingReviews stN)))
                   = Some (header # map (record_of l) (allReviews_of ks (existingReviews stN)))
               \<and> Atoi l (Itoa l (Rating e)) = Rating e
               \<and> ParseRFC3339 l (FormatRFC3339 l (Date e)) = Date e
             \<longrightarrow> (\<exists>w m.
                    main_run l cfg net env_io ks ratingRange d (Inr fetched)
                      = (Completed (stN\<lparr>env := w\<rparr>),
                         Rows (header # map (record_of l)
                                 (allReviews_of ks (existingReviews stN))))
                  \<and> readExistingReviews l
                       (Rows (header # map (record_of l)
                                (allReviews_of ks (existingReviews stN)))) = Inr m
                  \<and> m k = Some e))"
proof (intro conjI allI impI)
  fix k assume "k \<notin> set (fetched_ids fetched)"
  from process_reviews_frame [OF assms this] show "existingReviews stN k = m0 k"
    by (simp add: start_state_def)
next
  from process_reviews_dom [OF assms] show "dom m0 \<subseteq> dom (existingReviews stN)"
    by (simp add: start_state_def)
next
  from process_reviews_union [OF assms]
  show "existingReviews stN = m0 ++ map_of (rev (map (\<lambda>b. (ReviewID b, b)) (newReviews stN)))"
    by (auto simp: start_state_def)
next
  fix k e ks env_io d
  let ?all = "allReviews_of ks (existingReviews stN)"
  assume h: "readExistingReviews l d = Inr m0 \<and> m0 k = Some e
               \<and> k \<notin> set (fetched_ids fetched) \<and> k \<in> set ks \<and> undisturbed env_io"
  then have load: "readExistingReviews l d = Inr m0" and io: "undisturbed env_io"
    and fresh: "k \<notin> set (fetched_ids fetched)"
    by simp_all
  from process_reviews_frame [OF assms fresh] h have "existingReviews stN k = Some e"
    by (simp add: start_state_def)
  with h have "e \<in> set ?all"
    by (auto simp: set_allReviews_of)
  from encoding_mem [OF this, of l] obtain pre post where
    "encoding l ?all = pre @ csv_line l (record_of l e) @ post"
    by blast
  moreover from main_run_undisturbed [OF load assms io, of ks] obtain w where
    "main_run l cfg net env_io ks ratingRange d (Inr fetched)
       = (Completed (stN\<lparr>env := w\<rparr>), disk_of l (encoding l ?all))"
    by blast
  ultimately show "\<exists>w pre post.
                    main_run l cfg net env_io ks ratingRange d (Inr fetched)
                      = (Completed (stN\<lparr>env := w\<rparr>), disk_of l (encoding l ?all))
                  \<and> encoding l ?all = pre @ csv_line l (record_of l e) @ post"
    by blast
next
  fix k e ks env_io d
  let ?all = "allReviews_of ks (existingReviews stN)"
  assume h: "readExistingReviews l d = Inr m0 \<and> m0 k = Some e
               \<and> k \<notin> set (fetched_ids fetched) \<and> k \<in> set ks \<and> undisturbed env_io
               \<and> csv_parse l (encoding l ?all) = Some (header # map (record_of l) ?all)
               \<and> Atoi l (Itoa l (Rating e)) = Rating e
               \<and> ParseRFC3339 l (FormatRFC3339 l (Date e)) = Date e"
  then have load: "readExistingReviews l d = Inr m0" and io: "undisturbed env_io"
    and fresh: "k \<notin> set (fetched_ids fetched)" and ks: "k \<in> set ks"
    and codec: "csv_parse l (encoding l ?all) = Some (header # map (record_of l) ?all)"
    and rating: "Atoi l (Itoa l (Rating e)) = Rating e"
    and date: "ParseRFC3339 l (FormatRFC3339 l (Date e)) = Date e"
    by simp_all
  from process_reviews_frame [OF assms fresh] h have kN: "existingReviews stN k = Some e"
    by (simp add: start_state_def)
  from readExistingReviews_keyed [OF load]
  have "keyed (existingReviews (start_state m0))" by (simp add: start_state_def)
  from process_reviews_keyed [OF assms this] have keyed: "keyed (existingReviews stN)" .
  from main_run_undisturbed [OF load assms io, of ks] obtain w where
    "main_run l cfg net env_io ks ratingRange d (Inr fetched)
       = (Completed (stN\<lparr>env := w\<rparr>), disk_of l (encoding l ?all))"
    by blast
  with codec have run: "main_run l cfg net env_io ks ratingRange d (Inr fetched)
       = (Completed (stN\<lparr>env := w\<rparr>), Rows (header # map (record_of l) ?all))"
    by (simp add: disk_of_def)
  from reload_exact [OF keyed kN ks rating date] obtain m where
    "readExistingReviews l (Rows (header # map (record_of l) ?all)) = Inr m" "m k = Some e"
    by blast
  with run show "\<exists>w m.
                    main_run l cfg net env_io ks ratingRange d (Inr fetched)
                      = (Completed (stN\<lparr>env := w\<rparr>), Rows (header # map (record_of l) ?all))
                  \<and> readExistingReviews l (Rows (header # map (record_of l) ?all)) = Inr m
                  \<and> m k = Some e"
    by blast
qed

theorem prior_state_retained_witness:
  "process_reviews sample_lib dry_run accepting None (start_state [''r2'' \<mapsto> sample_stored])
     [Some (api_review ''r1'' 5 ''great!'')] = Inr after_dry_run
   \<and> readExistingReviews sample_lib (Rows [header, sample_row]) = Inr [''r2'' \<mapsto> sample_stored]
   \<and> [''r2'' \<mapsto> sample_stored] ''r2'' = Some sample_stored
   \<and> ''r2'' \<notin> set (fetched_ids [Some (api_review ''r1'' 5 ''great!'')])
   \<and> ''r2'' \<in> set [''r2'', ''r1'']
   \<and> undisturbed sound_io
   \<and> csv_parse sample_lib (encoding sample_lib [sample_stored, sample_new\<lparr>Notified := True\<rparr>])
       = Some (header # map (record_of sample_lib)
                 [sample_stored, sample_new\<lparr>Notified := True\<rparr>])
   \<and> Atoi sample_lib (Itoa sample_lib (Rating sample_stored)) = Rating sample_stored
   \<and> ParseRFC3339 sample_lib (FormatRFC3339 sample_lib (Date sample_stored))
       = Date sample_stored
   \<and> existingReviews after_dry_run ''r2'' = Some sample_stored
   \<and> (\<exists>w pre post.
         main_run sample_lib dry_run accepting sound_io [''r2'', ''r1''] None
           (Rows [header, sample_row]) (Inr [Some (api_review ''r1'' 5 ''great!'')])
           = (Completed (after_dry_run\<lparr>env := w\<rparr>),
              disk_of sample_lib
                (encoding sample_lib [sample_stored, sample_new\<lparr>Notified := True\<rparr>]))
       \<and> encoding sample_lib [sample_stored, sample_new\<lparr>Notified := True\<rparr>]
           = pre @ csv_line sample_lib (record_of sample_lib sample_stored) @ post)
   \<and> (\<exists>w m.
         main_run sample_lib dry_run accepting sound_io [''r2'', ''r1''] None
           (Rows [header, sample_row]) (Inr [Some (api_review ''r1'' 5 ''great!'')])
           = (Completed (after_dry_run\<lparr>env := w\<rparr>),
              Rows (header # map (record_of sample_lib)
                      [sample_stored, sample_new\<lparr>Notified := True\<rparr>]))
       \<and> readExistingReviews sample_lib
            (Rows (header # map (record_of sample_lib)
                     [sample_stored, sample_new\<lparr>Notified := True\<rparr>])) = Inr m
       \<and> m ''r2'' = Some sample_stored)"
proof -
  let ?rs = "[Some (api_review ''r1'' 5 ''great!'')]"
  let ?all = "[sample_stored, sample_new\<lparr>Notified := True\<rparr>]"
  have k: "[''r2'' \<mapsto> sample_stored] ''r2'' = Some sample_stored" by simp
  have fresh: "''r2'' \<notin> set (fetched_ids ?rs)"
    by (simp add: fetched_ids_def api_review_def)
  have ks: "''r2'' \<in> set [''r2'', ''r1'']" by simp
  have rating: "Atoi sample_lib (Itoa sample_lib (Rating sample_stored)) = Rating sample_stored"
    by (simp add: sample_lib_def sample_stored_def)
  have date: "ParseRFC3339 sample_lib (FormatRFC3339 sample_lib (Date sample_stored))
       = Date sample_stored"
    by (simp add: sample_lib_def sample_stored_def)
  note T = prior_state_retained [OF dry_run_loop, unfolded dry_run_rows]
  from T fresh have "existingReviews after_dry_run ''r2'' = [''r2'' \<mapsto> sample_stored] ''r2''"
    by blast
  then have kept: "existingReviews after_dry_run ''r2'' = Some sample_stored"
    by simp
  from T have "readExistingReviews sample_lib (Rows [header, sample_row])
        = Inr [''r2'' \<mapsto> sample_stored]
      \<and> [''r2'' \<mapsto> sample_stored] ''r2'' = Some sample_stored
      \<and> ''r2'' \<notin> set (fetched_ids ?rs) \<and> ''r2'' \<in> set [''r2'', ''r1'']
      \<and> undisturbed sound_io
      \<longrightarrow> (\<exists>w pre post.
         main_run sample_lib dry_run accepting sound_io [''r2'', ''r1''] None
           (Rows [header, sample_row]) (Inr ?rs)
           = (Completed (after_dry_run\<lparr>env := w\<rparr>),
              disk_of sample_lib
                (encoding sample_lib
                   (allReviews_of [''r2'', ''r1''] (existingReviews after_dry_run))))
       \<and> encoding sample_lib (allReviews_of [''r2'', ''r1''] (existingReviews after_dry_run))
           = pre @ csv_line sample_lib (record_of sample_lib sample_stored) @ post)"
    by blast
  with sample_load k fresh ks undisturbed_sound_io
  have bytes: "\<exists>w pre post.
         main_run sample_lib dry_run accepting sound_io [''r2'', ''r1''] None
           (Rows [header, sample_row]) (Inr ?rs)
           = (Completed (after_dry_run\<lparr>env := w\<rparr>),
              disk_of sample_lib (encoding sample_lib ?all))
       \<and> encoding sample_lib ?all
           = pre @ csv_line sample_lib (record_of sample_lib sample_stored) @ post"
    unfolding dry_run_rows by blast
  from T have "readExistingReviews sample_lib (Rows [header, sample_row])
        = Inr [''r2'' \<mapsto> sample_stored]
      \<and> [''r2'' \<mapsto> sample_stored] ''r2'' = Some sample_stored
      \<and> ''r2'' \<notin> set (fetched_ids ?rs) \<and> ''r2'' \<in> set [''r2'', ''r1'']
      \<and> undisturbed sound_io
      \<and> csv_parse sample_lib
           (encoding sample_lib (allReviews_of [''r2'', ''r1''] (existingReviews after_dry_run)))
         = Some (header # map (record_of sample_lib)
                   (allReviews_of [''r2'', ''r1''] (existingReviews after_dry_run)))
      \<and> Atoi sample_lib (Itoa sample_lib (Rating sample_stored)) = Rating sample_stored
      \<and> ParseRFC3339 sample_lib (FormatRFC3339 sample_lib (Date sample_stored))
          = Date sample_stored
      \<longrightarrow> (\<exists>w m.
         main_run sample_lib dry_run accepting sound_io [''r2'', ''r1''] None
           (Rows [header, sample_row]) (Inr ?rs)
           = (Completed (after_dry_run\<lparr>env := w\<rparr>),
              Rows (header # map (record_of sample_lib)
                      (allReviews_of [''r2'', ''r1''] (existingReviews after_dry_run))))
       \<and> readExistingReviews sample_lib
            (Rows (header # map (record_of sample_lib)
                     (allReviews_of [''r2'', ''r1''] (existingReviews after_dry_run)))) = Inr m
       \<and> m ''r2'' = Some sample_stored)"
    by blast
  with sample_load k fresh ks undisturbed_sound_io dry_run_codec rating date
  have reload: "\<exists>w m.
         main_run sample_lib dry_run accepting sound_io [''r2'', ''r1''] None
           (Rows [header, sample_row]) (Inr ?rs)
           = (Completed (after_dry_run\<lparr>env := w\<rparr>),
              Rows (header # map (record_of sample_lib) ?all))
       \<and> readExistingReviews sample_lib (Rows (header # map (record_of sample_lib) ?all))
           = Inr m
       \<and> m ''r2'' = Some sample_stored"
    unfolding dry_run_rows by blast
  from dry_run_loop sample_load k fresh ks undisturbed_sound_io dry_run_codec rating date
    kept bytes reload
  show ?thesis by blast
qed

section \<open>Pacing delay\<close>

text \<open>
  A live call that the webhook answers with status 500: the request is the only event,
  and the call returns the failure without a sleep.
\<close>

theorem no_delay_after_refusal:
  "sendToWebhook sample_lib live refusing sample_new \<lparr>trace = [], posts = 0\<rparr>
     = (Inl (Error ''webhook returned non-200 status code: 500''),
        \<lparr>trace = [HttpPost ''https://chat.example/hook''
                    (message_text sample_lib (concat (replicate 5 star)) sample_new)],
         posts = 1\<rparr>)"
  by (simp add: sendToWebhook_def Repeat_star_def sample_new_def live_def refusing_def
      sample_lib_def Let_def)

text \<open>
  C7, as the code has it. In dry-run mode the call logs the message, sleeps two seconds
  and reports success. In every mode, a call that reports success has the two-second
  sleep as its last event, and a call that reports a failure (the message cannot be
  serialised, the request gets no response, or the status is not 200) returns without
  any sleep.
\<close>

theorem pacing_delay:
  "(testMode cfg \<and> Repeat_star (Rating review) = Inr stars
      \<longrightarrow> sendToWebhook l cfg net review w
            = (Inr (), w\<lparr>trace := trace w @ [LogTestMode (message_text l stars review),
                                                Sleep 2]\<rparr>))
   \<and> (sendToWebhook l cfg net review w = (res, w')
      \<longrightarrow> (\<exists>evs. trace w' = trace w @ evs
             \<and> (res = Inr () \<longrightarrow> evs \<noteq> [] \<and> last evs = Sleep 2)
             \<and> (res \<noteq> Inr () \<longrightarrow> (\<forall>n. Sleep n \<notin> set evs))))"
proof (intro conjI impI)
  assume "testMode cfg \<and> Repeat_star (Rating review) = Inr stars"
  then show "sendToWebhook l cfg net review w
            = (Inr (), w\<lparr>trace := trace w @ [LogTestMode (message_text l stars review),
                                                Sleep 2]\<rparr>)"
    by (simp add: sendToWebhook_def Let_def)
next
  assume call: "sendToWebhook l cfg net review w = (res, w')"
  show "\<exists>evs. trace w' = trace w @ evs
             \<and> (res = Inr () \<longrightarrow> evs \<noteq> [] \<and> last evs = Sleep 2)
             \<and> (res \<noteq> Inr () \<longrightarrow> (\<forall>n. Sleep n \<notin> set evs))"
  proof (cases "Repeat_star (Rating review)")
    case (Inl e)
    with call show ?thesis by (auto simp: sendToWebhook_def)
  next
    case (Inr stars)
    show ?thesis
    proof (cases "testMode cfg")
      case True
      with Inr call show ?thesis by (auto simp: sendToWebhook_def Let_def)
    next
      case False
      show ?thesis
      proof (cases "Marshal l (message_text l stars review)")
        case None
        with Inr False call show ?thesis by (auto simp: sendToWebhook_def Let_def)
      next
        case (Some jsonData)
        with Inr False call show ?thesis
          by (cases "net (posts w)") (auto simp: sendToWebhook_def Let_def split: if_splits)
      qed
    qed
  qed
qed

theorem pacing_delay_witness:
  "testMode dry_run \<and> Repeat_star (Rating sample_new) = Inr (concat (replicate 5 star))
   \<and> sendToWebhook sample_lib dry_run accepting sample_new \<lparr>trace = [], posts = 0\<rparr>
       = (Inr (), \<lparr>trace = [LogTestMode (message_text sample_lib (concat (replicate 5 star))
                                          sample_new), Sleep 2],
                   posts = 0\<rparr>)
   \<and> (\<exists>evs. evs \<noteq> [] \<and> last evs = Sleep 2
         \<and> trace \<lparr>trace = [LogTestMode (message_text sample_lib (concat (replicate 5 star))
                                          sample_new), Sleep 2],
                   posts = 0\<rparr> = [] @ evs)"
proof -
  let ?w = "\<lparr>trace = [], posts = 0\<rparr>"
  have a: "testMode dry_run" by (simp add: dry_run_def)
  have b: "Repeat_star (Rating sample_new) = Inr (concat (replicate 5 star))"
    by (simp add: Repeat_star_def sample_new_def)
  note T = pacing_delay [where cfg = dry_run and review = sample_new
      and stars = "concat (replicate 5 star)" and l = sample_lib and net = accepting
      and w = ?w]
  from T a b have c: "sendToWebhook sample_lib dry_run accepting sample_new ?w
       = (Inr (), ?w\<lparr>trace := trace ?w @ [LogTestMode (message_text sample_lib
            (concat (replicate 5 star)) sample_new), Sleep 2]\<rparr>)"
    by blast
  with T [of "Inr ()"] a b show ?thesis by simp
qed


section \<open>A review without comments\<close>

text \<open>
  A first review without comments, a second one that is well-formed: the run ends in a
  panic and the state file is not written.
\<close>

theorem no_comments_crash:
  "main_run sample_lib dry_run accepting sound_io [] None NoFile
     (Inr [Some no_comments, Some (api_review ''r1'' 5 ''great'')])
     = (Crashed, NoFile)"
  by (simp add: main_run_def readExistingReviews_def process_review_def userComment_def
      no_comments_def)

text \<open>
  C8, as the code has it. The loop body indexes the first comment without a check, so
  it requires every fetched review to carry a comment: on a fetched review with an empty
  comments list the pass panics, in whatever state; the loop that has reached it ends in
  the panic and does not go on to the reviews after it; and the run that has loaded its
  state and reached it crashes and leaves the state file as it was.
\<close>

theorem empty_comments_panic:
  assumes "Comments review = []"
  shows "process_review l cfg net ratingRange st (Some review) = Inl Panic
       \<and> (process_reviews l cfg net ratingRange st before = Inr reached
            \<longrightarrow> process_reviews l cfg net ratingRange st (before @ Some review # rest)
                  = Inl Panic)
       \<and> (readExistingReviews l d = Inr prior
            \<and> process_reviews l cfg net ratingRange (start_state prior) before = Inr reached
            \<longrightarrow> main_run l cfg net env_io ks ratingRange d (Inr (before @ Some review # rest))
                  = (Crashed, d))"
proof -
  have step: "process_review l cfg net ratingRange s (Some review) = Inl Panic" for s
    using assms by (simp add: process_review_def userComment_def)
  have loop: "process_reviews l cfg net ratingRange s (before @ Some review # rest) = Inl Panic"
    if "process_reviews l cfg net ratingRange s before = Inr reached" for s
    using that step [of reached] by (simp add: process_reviews_append)
  have run: "main_run l cfg net env_io ks ratingRange d (Inr (before @ Some review # rest))
                  = (Crashed, d)"
    if "readExistingReviews l d = Inr prior"
      "process_reviews l cfg net ratingRange (start_state prior) before = Inr reached"
    using that(1) loop [OF that(2)] by (simp add: main_run_def)
  from step loop run show ?thesis by blast
qed

theorem empty_comments_panic_witness:
  "Comments no_comments = []
   \<and> readExistingReviews sample_lib NoFile = Inr Map.empty
   \<and> process_reviews sample_lib dry_run accepting (Some \<lparr>Start = 4, End = 5\<rparr>)
        (start_state Map.empty) [Some (api_review ''r0'' 1 ''bad'')]
       = Inr (start_state Map.empty)
   \<and> process_reviews sample_lib dry_run accepting (Some \<lparr>Start = 4, End = 5\<rparr>)
        (start_state Map.empty)
        ([Some (api_review ''r0'' 1 ''bad'')] @ Some no_comments
           # [Some (api_review ''r1'' 5 ''great'')])
       = Inl Panic
   \<and> main_run sample_lib dry_run accepting sound_io [] (Some \<lparr>Start = 4, End = 5\<rparr>) NoFile
        (Inr ([Some (api_review ''r0'' 1 ''bad'')] @ Some no_comments
           # [Some (api_review ''r1'' 5 ''great'')]))
       = (Crashed, NoFile)"
proof -
  have a: "Comments no_comments = []" by (simp add: no_comments_def)
  have b: "readExistingReviews sample_lib NoFile = Inr Map.empty"
    by (simp add: readExistingReviews_def)
  have c: "process_reviews sample_lib dry_run accepting (Some \<lparr>Start = 4, End = 5\<rparr>)
        (start_state Map.empty) [Some (api_review ''r0'' 1 ''bad'')]
       = Inr (start_state Map.empty)"
    by (simp add: process_review_def userComment_def api_review_def filtered_out_def)
  from empty_comments_panic [OF a, where l = sample_lib and cfg = dry_run and net = accepting
      and ratingRange = "Some \<lparr>Start = 4, End = 5\<rparr>" and st = "start_state Map.empty"
      and before = "[Some (api_review ''r0'' 1 ''bad'')]" and reached = "start_state Map.empty"
      and rest = "[Some (api_review ''r1'' 5 ''great'')]" and d = NoFile and prior = Map.empty
      and env_io = sound_io and ks = "[]"] a b c
  show ?thesis by blast
qed

section \<open>Persistence failures\<close>

text \<open>The long state file on the disk where no write of the buffer succeeds.\<close>

lemma long_file_full_disk:
  "saveReviews sample_lib full_disk [long_stored] d
     = (Inl (Error ''failed to write record''), Rows [])"
proof -
  let ?h = "csv_line sample_lib header"
  let ?r = "csv_line sample_lib (record_of sample_lib long_stored)"
  have sp: "spill full_disk n = Failed 0" for n
    by (simp add: full_disk_def)
  have h: "writer_Write (Failed 0) \<lparr>written = [], pending = []\<rparr> ?h
      = (Inr (), \<lparr>written = [], pending = ?h\<rparr>)"
    by (simp add: writer_Write_def length_header_line buffer_size_def)
  have r: "writer_Write (Failed 0) \<lparr>written = [], pending = ?h\<rparr> ?r
      = (Inl (Error ''write failed''), \<lparr>written = [], pending = ?h @ ?r\<rparr>)"
    by (simp add: writer_Write_def length_header_line length_long_line)
      (simp add: buffer_size_def)
  have "write_file sample_lib full_disk [long_stored]
      = (Inl (Error ''failed to write record''), [])"
    by (simp add: write_file_def sp h r)
  moreover have "disk_of sample_lib [] = Rows []"
    by (simp add: disk_of_def) (simp add: sample_lib_def parse_empty)
  ultimately show ?thesis
    by (simp add: saveReviews_def) (simp add: full_disk_def)
qed

text \<open>The state file of the one stored record.\<close>

lemma sample_file:
  "disk_of sample_lib (encoding sample_lib [sample_stored]) = Rows [header, sample_row]"
proof -
  have "encoding sample_lib [sample_stored]
      = ''Review ID,Rating,Review Text,Author,Device,Date,Notified\<newline>''
        @ ''r2,2,slow,Ann,Pixel,1970-01-01T00:00:00Z,true\<newline>''"
    by (simp add: encoding_def header_line)
      (simp add: sample_lib_def record_of_def sample_stored_def FormatBool_def)
  moreover have "sample_parse (''Review ID,Rating,Review Text,Author,Device,Date,Notified\<newline>''
        @ ''r2,2,slow,Ann,Pixel,1970-01-01T00:00:00Z,true\<newline>'')
      = Some [header, sample_row]"
    by (simp add: sample_parse_def header_def sample_row_def)
  ultimately show ?thesis
    by (simp add: disk_of_def) (simp add: sample_lib_def)
qed

text \<open>
  Two runs that fetch nothing over a state file of one record. On the first disk the
  record's row overflows the buffer and the buffer cannot be written out: the run ends in
  \<^verbatim>\<open>log.Fatalf\<close>, and the state file, truncated when it was created, holds nothing. On
  the second disk the final flush fails: the save returns without an error, and the file
  holds nothing either.
\<close>

theorem failed_save_truncates:
  "main_run sample_lib dry_run accepting full_disk [''r2''] None (Rows [header, long_row])
     (Inr [])
     = (Fatal ''Failed to save reviews: failed to write record'', Rows [])
   \<and> saveReviews sample_lib lost_flush [sample_stored] (Rows [header, sample_row])
     = (Inr (), Rows [])"
proof -
  have "allReviews_of [''r2''] [''r2'' \<mapsto> long_stored] = [long_stored]"
    by (simp add: allReviews_of_def)
  then have "main_run sample_lib dry_run accepting full_disk [''r2''] None
       (Rows [header, long_row]) (Inr [])
     = (Fatal ''Failed to save reviews: failed to write record'', Rows [])"
    by (simp add: main_run_def long_file_load(1) start_state_def long_file_full_disk)
  moreover have "length (encoding sample_lib [sample_stored]) \<le> buffer_size"
    by (simp add: encoding_def header_line buffer_size_def)
      (simp add: sample_lib_def record_of_def sample_stored_def FormatBool_def)
  from saveReviews_fits [OF _ this, of lost_flush "Rows [header, sample_row]"]
  have "saveReviews sample_lib lost_flush [sample_stored] (Rows [header, sample_row])
      = (Inr (), Rows [])"
    by (simp add: lost_flush_def disk_of_def) (simp add: sample_lib_def parse_empty)
  ultimately show ?thesis by simp
qed

text \<open>
  C9, as the code has it. When \<^verbatim>\<open>saveReviews\<close> returns an error at the end of a run,
  the run ends in \<^verbatim>\<open>log.Fatalf\<close>. When the file cannot be created, the save returns an
  error and the file is as it was. Once the file has been created it has been truncated,
  and whatever the save returns, the file holds the first bytes of the complete file, up
  to some byte that need not end a row. When the save returns without an error and the
  writer's final flush succeeds, the file holds all the bytes of the complete file: the
  header line and the line of every record, in order.
\<close>

theorem save_outcomes:
  "(readExistingReviews l d = Inr prior
      \<and> process_reviews l cfg net ratingRange (start_state prior) fetched = Inr stL
      \<and> saveReviews l env_io (allReviews_of ks (existingReviews stL)) d = (Inl (Error err), left)
     \<longrightarrow> main_run l cfg net env_io ks ratingRange d (Inr fetched)
           = (Fatal (''Failed to save reviews: '' @ err), left))
   \<and> (\<not> create_ok env_io
     \<longrightarrow> saveReviews l env_io reviews d = (Inl (Error ''failed to create CSV file''), d))
   \<and> (create_ok env_io \<and> saveReviews l env_io reviews d = (res, d')
     \<longrightarrow> (\<exists>bytes more. d' = disk_of l bytes \<and> encoding l reviews = bytes @ more))
   \<and> (saveReviews l env_io reviews d = (Inr (), d') \<and> flush_fails env_io = None
     \<longrightarrow> d' = disk_of l (encoding l reviews))"
proof (intro conjI impI)
  assume "readExistingReviews l d = Inr prior
      \<and> process_reviews l cfg net ratingRange (start_state prior) fetched = Inr stL
      \<and> saveReviews l env_io (allReviews_of ks (existingReviews stL)) d = (Inl (Error err), left)"
  then show "main_run l cfg net env_io ks ratingRange d (Inr fetched)
           = (Fatal (''Failed to save reviews: '' @ err), left)"
    by (simp add: main_run_def)
next
  assume "\<not> create_ok env_io"
  then show "saveReviews l env_io reviews d = (Inl (Error ''failed to create CSV file''), d)"
    by (rule saveReviews_create_fails)
next
  assume "create_ok env_io \<and> saveReviews l env_io reviews d = (res, d')"
  then have "saveReviews l env_io reviews d = (res, d')" "create_ok env_io" by simp_all
  then show "\<exists>bytes more. d' = disk_of l bytes \<and> encoding l reviews = bytes @ more"
    by (rule saveReviews_partial)
next
  assume "saveReviews l env_io reviews d = (Inr (), d') \<and> flush_fails env_io = None"
  then have "saveReviews l env_io reviews d = (Inr (), d')" "flush_fails env_io = None"
    by simp_all
  then show "d' = disk_of l (encoding l reviews)"
    by (rule saveReviews_complete)
qed

theorem save_outcomes_witness:
  "readExistingReviews sample_lib (Rows [header, long_row]) = Inr [''r2'' \<mapsto> long_stored]
   \<and> process_reviews sample_lib dry_run accepting None
         (start_state [''r2'' \<mapsto> long_stored]) []
       = Inr (start_state [''r2'' \<mapsto> long_stored])
   \<and> saveReviews sample_lib full_disk
         (allReviews_of [''r2''] (existingReviews (start_state [''r2'' \<mapsto> long_stored])))
         (Rows [header, long_row])
       = (Inl (Error ''failed to write record''), Rows [])
   \<and> main_run sample_lib dry_run accepting full_disk [''r2''] None
         (Rows [header, long_row]) (Inr [])
       = (Fatal (''Failed to save reviews: '' @ ''failed to write record''), Rows [])
   \<and> \<not> create_ok locked_dir
   \<and> saveReviews sample_lib locked_dir [sample_stored] (Rows [header, sample_row])
       = (Inl (Error ''failed to create CSV file''), Rows [header, sample_row])
   \<and> create_ok lost_flush
   \<and> saveReviews sample_lib lost_flush [long_stored] (Rows [header, long_row])
       = (Inr (), Rows [header, cut_row])
   \<and> (\<exists>bytes more. Rows [header, cut_row] = disk_of sample_lib bytes
         \<and> encoding sample_lib [long_stored] = bytes @ more)
   \<and> flush_fails sound_io = None
   \<and> saveReviews sample_lib sound_io [sample_stored] NoFile = (Inr (), Rows [header, sample_row])
   \<and> Rows [header, sample_row] = disk_of sample_lib (encoding sample_lib [sample_stored])"
proof -
  let ?d = "Rows [header, long_row]"
  let ?m = "[''r2'' \<mapsto> long_stored]"
  have loop: "process_reviews sample_lib dry_run accepting None (start_state ?m) []
       = Inr (start_state ?m)"
    by simp
  have c: "\<not> create_ok locked_dir" "create_ok lost_flush" "flush_fails sound_io = None"
    by (simp_all add: locked_dir_def lost_flush_def sound_io_def)
  have "allReviews_of [''r2''] (existingReviews (start_state ?m)) = [long_stored]"
    by (simp add: allReviews_of_def start_state_def)
  then have fail: "saveReviews sample_lib full_disk
         (allReviews_of [''r2''] (existingReviews (start_state ?m))) ?d
       = (Inl (Error ''failed to write record''), Rows [])"
    by (simp only: long_file_full_disk)
  have cut: "saveReviews sample_lib lost_flush [long_stored] ?d = (Inr (), Rows [header, cut_row])"
    by (rule long_file_save)
  have sound: "saveReviews sample_lib sound_io [sample_stored] NoFile
       = (Inr (), Rows [header, sample_row])"
    by (simp only: saveReviews_undisturbed [OF undisturbed_sound_io] sample_file)
  from save_outcomes [where l = sample_lib and cfg = dry_run and net = accepting
      and ratingRange = None and d = ?d and prior = ?m and fetched = "[]"
      and stL = "start_state ?m" and ks = "[''r2'']" and err = "''failed to write record''"
      and left = "Rows []" and env_io = full_disk] long_file_load(1) loop fail
  have fatal: "main_run sample_lib dry_run accepting full_disk [''r2''] None ?d (Inr [])
       = (Fatal (''Failed to save reviews: '' @ ''failed to write record''), Rows [])"
    by blast
  from save_outcomes [where l = sample_lib and env_io = locked_dir
      and reviews = "[sample_stored]" and d = "Rows [header, sample_row]"] c(1)
  have nocreate: "saveReviews sample_lib locked_dir [sample_stored] (Rows [header, sample_row])
       = (Inl (Error ''failed to create CSV file''), Rows [header, sample_row])"
    by blast
  from save_outcomes [where l = sample_lib and env_io = lost_flush
      and reviews = "[long_stored]" and d = ?d and res = "Inr ()"
      and d' = "Rows [header, cut_row]"] c(2) cut
  have part: "\<exists>bytes more. Rows [header, cut_row] = disk_of sample_lib bytes
         \<and> encoding sample_lib [long_stored] = bytes @ more"
    by blast
  from save_outcomes [where l = sample_lib and env_io = sound_io
      and reviews = "[sample_stored]" and d = NoFile
      and d' = "Rows [header, sample_row]"] c(3) sound
  have whole: "Rows [header, sample_row] = disk_of sample_lib (encoding sample_lib [sample_stored])"
    by blast
  from long_file_load(1) loop fail fatal c nocreate cut part sound whole
  show ?thesis by blast
qed

end
